theory Spec2Isabelle
  imports Main "HOL-Library.Sublist"
begin

section \<open>Strings of the source\<close>

text \<open>
  \<^verbatim>\<open>std::string\<close> is a byte string: \<^typ>\<open>string\<close>.  The members the source uses are
  written out; where the C++ member throws (\<^verbatim>\<open>substr\<close> past the end) or is undefined
  (\<^verbatim>\<open>back\<close> of the empty string) the model returns an error value.
\<close>

datatype error = OutOfRange | BackOfEmptyString

definition str_back :: "string \<Rightarrow> error + char" where
  "str_back s = (if s = [] then Inl BackOfEmptyString else Inr (last s))"

text \<open>\<^verbatim>\<open>s.find(c, pos)\<close>: index of the first \<open>c\<close> at or after \<open>pos\<close>, \<open>None\<close> for \<^verbatim>\<open>npos\<close>.\<close>

definition str_find :: "string \<Rightarrow> char \<Rightarrow> nat \<Rightarrow> nat option" where
  "str_find s c pos =
     (let k = length (takeWhile (\<lambda>x. x \<noteq> c) (drop pos s))
      in if pos + k < length s then Some (pos + k) else None)"

text \<open>\<^verbatim>\<open>s.substr(pos, n)\<close> for \<open>pos \<le> size\<close>, and \<^verbatim>\<open>s.substr(pos)\<close> which throws past the end.\<close>

definition substr :: "string \<Rightarrow> nat \<Rightarrow> nat \<Rightarrow> string" where
  "substr s pos n = take n (drop pos s)"

definition substr_from :: "string \<Rightarrow> nat \<Rightarrow> error + string" where
  "substr_from s pos = (if length s < pos then Inl OutOfRange else Inr (drop pos s))"

text \<open>\<^verbatim>\<open>s.compare(0, v.size(), v) == 0\<close>.\<close>

definition compare_prefix :: "string \<Rightarrow> string \<Rightarrow> bool" where
  "compare_prefix s v = (take (length v) s = v)"

section \<open>The file system underneath\<close>

text \<open>
  The calls of the C library that the source makes (\<^verbatim>\<open>stat\<close>, \<^verbatim>\<open>mkdir\<close>, \<^verbatim>\<open>remove\<close>,
  \<^verbatim>\<open>rmdir\<close>, \<^verbatim>\<open>opendir\<close>/\<^verbatim>\<open>readdir\<close>, opening and writing files) act on a tree.
  A regular file holds its bytes; a directory holds its entries in enumeration order and
  a flag telling whether \<^verbatim>\<open>opendir\<close> succeeds on it; \<open>Other\<close> is an entry that is
  neither (a device, a socket).  The volume has no symbolic links, so \<^verbatim>\<open>stat\<close> and
  \<^verbatim>\<open>lstat\<close> agree.
\<close>

datatype node = File string | Dir bool "(string \<times> node) list" | Other

datatype errno = EEXIST | ENOENT | ENOTDIR | ENOTEMPTY | EISDIR | EINVAL | EBUSY

datatype mode = S_IFREG | S_IFDIR | S_IFOTHER

record stat_buf =
  st_mode :: mode
  st_size :: nat

definition S_ISREG :: "mode \<Rightarrow> bool" where "S_ISREG m = (m = S_IFREG)"
definition S_ISDIR :: "mode \<Rightarrow> bool" where "S_ISDIR m = (m = S_IFDIR)"

subsection \<open>Paths\<close>

text \<open>
  A path is cut at every \<open>/\<close>; empty pieces are dropped, so repeated and trailing
  separators do not matter (the delete engine stats every child, files too, under a name
  that ends in \<open>/\<close> and expects the answer for the entry itself).  A first piece
  \<^verbatim>\<open>sdmc:\<close> is the device name: it names the root of the volume, which is also where
  paths without a device start.  The empty path names nothing.  The names \<open>.\<close> and \<open>..\<close> are not
  interpreted: no directory of the model holds them.
\<close>

fun split_slash :: "string \<Rightarrow> string list" where
  "split_slash [] = [[]]"
| "split_slash (c # cs) =
     (if c = CHR ''/'' then [] # split_slash cs
      else (case split_slash cs of [] \<Rightarrow> [[c]] | x # xs \<Rightarrow> (c # x) # xs))"

definition components :: "string \<Rightarrow> string list" where
  "components p =
     (case split_slash p of
        [] \<Rightarrow> []
      | c # cs \<Rightarrow> filter (\<lambda>x. x \<noteq> []) (if c = ''sdmc:'' then cs else c # cs))"

definition resolve :: "string \<Rightarrow> string list option" where
  "resolve p = (if p = [] then None else Some (components p))"

definition valid_name :: "string \<Rightarrow> bool" where
  "valid_name c = (c \<noteq> [] \<and> c \<noteq> ''.'' \<and> c \<noteq> ''..'' \<and> CHR ''/'' \<notin> set c)"

subsection \<open>Reading and updating the tree\<close>

fun lookup :: "node \<Rightarrow> string list \<Rightarrow> node option" where
  "lookup n [] = Some n"
| "lookup (Dir r es) (c # cs) = (case map_of es c of None \<Rightarrow> None | Some m \<Rightarrow> lookup m cs)"
| "lookup (File b) (c # cs) = None"
| "lookup Other (c # cs) = None"

fun modify :: "string list \<Rightarrow> (node \<Rightarrow> node) \<Rightarrow> node \<Rightarrow> node" where
  "modify [] f n = f n"
| "modify (c # cs) f (Dir r es) =
     Dir r (map (\<lambda>e. if fst e = c then (fst e, modify cs f (snd e)) else e) es)"
| "modify (c # cs) f (File b) = File b"
| "modify (c # cs) f Other = Other"

definition add_entry :: "string \<Rightarrow> node \<Rightarrow> node \<Rightarrow> node" where
  "add_entry c new n = (case n of Dir r es \<Rightarrow> Dir r (es @ [(c, new)]) | _ \<Rightarrow> n)"

definition drop_entry :: "string \<Rightarrow> node \<Rightarrow> node" where
  "drop_entry c n = (case n of Dir r es \<Rightarrow> Dir r (filter (\<lambda>e. fst e \<noteq> c) es) | _ \<Rightarrow> n)"

definition unlink_at :: "string list \<Rightarrow> node \<Rightarrow> node" where
  "unlink_at cs root = modify (butlast cs) (drop_entry (last cs)) root"

definition create_at :: "string list \<Rightarrow> node \<Rightarrow> node \<Rightarrow> node" where
  "create_at cs new root = modify (butlast cs) (add_entry (last cs) new) root"

subsection \<open>System calls\<close>

definition stat :: "node \<Rightarrow> string \<Rightarrow> stat_buf option" where
  "stat root p =
     (case resolve p of None \<Rightarrow> None
      | Some cs \<Rightarrow>
          (case lookup root cs of None \<Rightarrow> None
           | Some (File b) \<Rightarrow> Some \<lparr>st_mode = S_IFREG, st_size = length b\<rparr>
           | Some (Dir r es) \<Rightarrow> Some \<lparr>st_mode = S_IFDIR, st_size = 0\<rparr>
           | Some Other \<Rightarrow> Some \<lparr>st_mode = S_IFOTHER, st_size = 0\<rparr>))"

definition lstat :: "node \<Rightarrow> string \<Rightarrow> stat_buf option" where
  "lstat root p = stat root p"

definition mkdir :: "node \<Rightarrow> string \<Rightarrow> errno + node" where
  "mkdir root p =
     (case resolve p of None \<Rightarrow> Inl ENOENT
      | Some cs \<Rightarrow>
          if cs = [] then Inl EEXIST
          else (case lookup root cs of Some n \<Rightarrow> Inl EEXIST
                | None \<Rightarrow>
                    (case lookup root (butlast cs) of None \<Rightarrow> Inl ENOENT
                     | Some (Dir r es) \<Rightarrow>
                         if valid_name (last cs) then Inr (create_at cs (Dir True []) root)
                         else Inl EINVAL
                     | Some (File b) \<Rightarrow> Inl ENOTDIR
                     | Some Other \<Rightarrow> Inl ENOTDIR)))"

text \<open>\<^verbatim>\<open>remove\<close> unlinks a file; it does not remove directories on this platform.\<close>

definition remove_file :: "node \<Rightarrow> string \<Rightarrow> errno + node" where
  "remove_file root p =
     (case resolve p of None \<Rightarrow> Inl ENOENT
      | Some cs \<Rightarrow>
          if cs = [] then Inl EISDIR
          else (case lookup root cs of None \<Rightarrow> Inl ENOENT
                | Some (Dir r es) \<Rightarrow> Inl EISDIR
                | Some (File b) \<Rightarrow> Inr (unlink_at cs root)
                | Some Other \<Rightarrow> Inr (unlink_at cs root)))"

definition rmdir :: "node \<Rightarrow> string \<Rightarrow> errno + node" where
  "rmdir root p =
     (case resolve p of None \<Rightarrow> Inl ENOENT
      | Some cs \<Rightarrow>
          if cs = [] then Inl EBUSY
          else (case lookup root cs of None \<Rightarrow> Inl ENOENT
                | Some (Dir r es) \<Rightarrow> if es = [] then Inr (unlink_at cs root) else Inl ENOTEMPTY
                | Some (File b) \<Rightarrow> Inl ENOTDIR
                | Some Other \<Rightarrow> Inl ENOTDIR))"

text \<open>
  \<^verbatim>\<open>opendir\<close> followed by \<^verbatim>\<open>readdir\<close> until it returns null: the names, with the two
  entries \<open>.\<close> and \<open>..\<close> that the source filters out; \<open>None\<close> when \<^verbatim>\<open>opendir\<close> fails.
\<close>

definition readdir_all :: "node \<Rightarrow> string \<Rightarrow> string list option" where
  "readdir_all root p =
     (case resolve p of None \<Rightarrow> None
      | Some cs \<Rightarrow>
          (case lookup root cs of
             Some (Dir r es) \<Rightarrow> if r then Some (''.'' # ''..'' # map fst es) else None
           | _ \<Rightarrow> None))"

text \<open>Opening for reading gives the bytes of a regular file.\<close>

definition open_read :: "node \<Rightarrow> string \<Rightarrow> string option" where
  "open_read root p =
     (case resolve p of None \<Rightarrow> None
      | Some cs \<Rightarrow> (case lookup root cs of Some (File b) \<Rightarrow> Some b | _ \<Rightarrow> None))"

text \<open>
  Opening for writing: \<open>trunc\<close> empties an existing file (\<^verbatim>\<open>"wb"\<close>, \<^verbatim>\<open>std::ofstream\<close>),
  otherwise its bytes are kept (\<^verbatim>\<open>"a"\<close>, \<^verbatim>\<open>std::ios::app\<close>); a missing file is created
  when its parent is a directory.  \<open>None\<close> when the open fails.
\<close>

definition open_write :: "bool \<Rightarrow> node \<Rightarrow> string \<Rightarrow> node option" where
  "open_write trunc root p =
     (case resolve p of None \<Rightarrow> None
      | Some cs \<Rightarrow>
          if cs = [] then None
          else (case lookup root cs of
                  Some (File b) \<Rightarrow> Some (if trunc then modify cs (\<lambda>n. File []) root else root)
                | Some (Dir r es) \<Rightarrow> None
                | Some Other \<Rightarrow> None
                | None \<Rightarrow>
                    (case lookup root (butlast cs) of
                       Some (Dir r es) \<Rightarrow>
                         if valid_name (last cs) then Some (create_at cs (File []) root) else None
                     | _ \<Rightarrow> None)))"

text \<open>Bytes written through an open handle reach the file while the path still names it.\<close>

definition append_bytes :: "node \<Rightarrow> string \<Rightarrow> string \<Rightarrow> node" where
  "append_bytes root p bytes =
     (case resolve p of None \<Rightarrow> root
      | Some cs \<Rightarrow> modify cs (\<lambda>n. case n of File b \<Rightarrow> File (b @ bytes) | _ \<Rightarrow> n) root)"

section \<open>Process state\<close>

text \<open>
  The globals of \<^verbatim>\<open>path_funcs.cpp\<close> and what surrounds a call.  \<open>copyPercentage\<close> is
  the atomic the engine publishes to, and \<open>published\<close> keeps every value stored into
  it, oldest first.  \<open>abortFileOp\<close> is only read by the engine and
  written by other threads: \<open>abort_reads\<close> lists the values that its successive loads
  return (\<open>False\<close> once the list is used up).  \<open>diag\<close> collects the \<^verbatim>\<open>logMessage\<close>
  lines, as if \<^verbatim>\<open>USING_LOGGING_DIRECTIVE\<close> were set.  The three fault lists script the
  device: \<open>open_faults\<close> says for each attempt of the copy engine whether opening the
  source and the destination fails for a transient reason, \<open>read_faults\<close> whether a read
  fails, \<open>write_caps\<close> how many bytes each write call accepts at most.
\<close>

record world =
  fs :: node
  copyPercentage :: int
  published :: "int list"
  COPY_BUFFER_SIZE :: nat
  diag :: "string list"
  abort_reads :: "bool list"
  open_faults :: "(bool \<times> bool) list"
  read_faults :: "bool list"
  write_caps :: "nat list"

definition logMessage :: "world \<Rightarrow> string \<Rightarrow> world" where
  "logMessage w msg = w\<lparr>diag := diag w @ [msg]\<rparr>"

definition load_abortFileOp :: "world \<Rightarrow> bool \<times> world" where
  "load_abortFileOp w =
     (case abort_reads w of [] \<Rightarrow> (False, w) | b # bs \<Rightarrow> (b, w\<lparr>abort_reads := bs\<rparr>))"

text \<open>
  What \<^verbatim>\<open>path_funcs.cpp\<close> takes from outside is a parameter of the model: the build
  switch \<^verbatim>\<open>NO_FSTREAM_DIRECTIVE\<close> that selects the \<^verbatim>\<open>FILE*\<close> backend, and the
  functions of the library that live in other files (the path helpers, the wildcard
  expansion and the flat listing, the last two reading the file system).
\<close>

record env =
  NO_FSTREAM_DIRECTIVE :: bool
  getParentDirFromPath :: "string \<Rightarrow> string"
  getNameFromPath :: "string \<Rightarrow> string"
  getFileName :: "string \<Rightarrow> string"
  getFilesListByWildcards :: "node \<Rightarrow> string \<Rightarrow> string list"
  getFilesListFromDirectory :: "node \<Rightarrow> string \<Rightarrow> string list"

section \<open>Path predicates\<close>

definition isDirectory :: "world \<Rightarrow> string \<Rightarrow> bool" where
  "isDirectory w path = (case stat (fs w) path of None \<Rightarrow> False | Some pathStat \<Rightarrow> S_ISDIR (st_mode pathStat))"

definition isFile :: "world \<Rightarrow> string \<Rightarrow> bool" where
  "isFile w path = (case stat (fs w) path of None \<Rightarrow> False | Some pathStat \<Rightarrow> S_ISREG (st_mode pathStat))"

definition isFileOrDirectory :: "world \<Rightarrow> string \<Rightarrow> bool" where
  "isFileOrDirectory w path = (stat (fs w) path \<noteq> None)"

section \<open>Directory creation\<close>

text \<open>Modelled from the spec: \<^verbatim>\<open>ROOT_PATH\<close> is declared in another file; the comment where
  \<^verbatim>\<open>createDirectory\<close> strips it gives its value.\<close>

definition ROOT_PATH :: string where
  "ROOT_PATH = ''sdmc:/''"

text \<open>The text the C library gives for an error number.\<close>

fun strerror :: "errno \<Rightarrow> string" where
  "strerror EEXIST = ''File exists''"
| "strerror ENOENT = ''No such file or directory''"
| "strerror ENOTDIR = ''Not a directory''"
| "strerror ENOTEMPTY = ''Directory not empty''"
| "strerror EISDIR = ''Is a directory''"
| "strerror EINVAL = ''Invalid argument''"
| "strerror EBUSY = ''Device or resource busy''"

definition createSingleDirectory :: "world \<Rightarrow> string \<Rightarrow> world" where
  "createSingleDirectory w directoryPath =
     (case mkdir (fs w) directoryPath of
        Inr fs' \<Rightarrow> w\<lparr>fs := fs'\<rparr>
      | Inl e \<Rightarrow>
          if e \<noteq> EEXIST
          then logMessage w (''Failed to create directory: '' @ directoryPath @ '' - '' @ strerror e)
          else w)"

text \<open>The \<^verbatim>\<open>while\<close> loop of \<^verbatim>\<open>createDirectory\<close>; it returns the state, \<open>parentPath\<close> and \<open>pos\<close>.\<close>

function createDirectory_loop :: "world \<Rightarrow> string \<Rightarrow> string \<Rightarrow> nat \<Rightarrow> world \<times> string \<times> nat" where
  "createDirectory_loop w path parentPath pos =
     (case str_find path CHR ''/'' pos of
        None \<Rightarrow> (w, parentPath, pos)
      | Some nextPos \<Rightarrow>
          if nextPos \<noteq> pos then
            (let parentPath' = parentPath @ substr path pos (nextPos - pos) @ ''/''
             in createDirectory_loop (createSingleDirectory w parentPath') path parentPath' (nextPos + 1))
          else createDirectory_loop w path parentPath (nextPos + 1))"
  by pat_completeness auto
termination
  by (relation "measure (\<lambda>(w, path, parentPath, pos). length path - pos)")
     (auto simp: str_find_def Let_def split: if_splits)

definition createDirectory :: "world \<Rightarrow> string \<Rightarrow> world" where
  "createDirectory w directoryPath =
     (let volume = ROOT_PATH;
          path = (if compare_prefix directoryPath volume then drop (length volume) directoryPath
                  else directoryPath);
          (w1, parentPath, pos) = createDirectory_loop w path volume 0
      in if pos < length path then createSingleDirectory w1 (parentPath @ drop pos path)
         else w1)"

section \<open>Flag files\<close>

text \<open>An output stream opened on \<open>outFile\<close> with truncation and closed at once.\<close>

definition touch_file :: "world \<Rightarrow> string \<Rightarrow> world" where
  "touch_file w outFile = (case open_write True (fs w) outFile of None \<Rightarrow> w | Some fs' \<Rightarrow> w\<lparr>fs := fs'\<rparr>)"

definition createFlagFiles :: "env \<Rightarrow> world \<Rightarrow> string \<Rightarrow> string \<Rightarrow> world" where
  "createFlagFiles X w wildcardPattern outputDir =
     (let allMatches = getFilesListByWildcards X (fs w) wildcardPattern
      in if allMatches = [] then w
         else
           (let w1 = createDirectory w outputDir;
                outputPrefix = (if outputDir \<noteq> [] \<and> last outputDir \<noteq> CHR ''/''
                                then outputDir @ ''/'' else outputDir)
            in foldl (\<lambda>w' fullPath.
                        let baseName = getNameFromPath X fullPath
                        in if baseName = [] then w' else touch_file w' (outputPrefix @ baseName))
                 w1 allMatches))"

section \<open>Arithmetic of the progress counters\<close>

text \<open>
  \<open>totalBytesCopied\<close> and \<open>totalSize\<close> are \<^verbatim>\<open>long long\<close>, the percentage is an
  \<^verbatim>\<open>int\<close>.  \<open>ll\<close> is the value a 64-bit signed result takes, \<open>int_cast\<close> is
  \<^verbatim>\<open>static_cast<int>\<close>, and \<open>ll_div\<close> is the division of C++, which truncates
  towards zero.
\<close>

definition ll :: "int \<Rightarrow> int" where
  "ll x = signed_take_bit 63 x"

definition int_cast :: "int \<Rightarrow> int" where
  "int_cast x = signed_take_bit 31 x"

definition ll_div :: "int \<Rightarrow> int \<Rightarrow> int" where
  "ll_div a b = ll (sgn a * sgn b * (\<bar>a\<bar> div \<bar>b\<bar>))"

definition store_copyPercentage :: "world \<Rightarrow> int \<Rightarrow> world" where
  "store_copyPercentage w v = w\<lparr>copyPercentage := v, published := published w @ [v]\<rparr>"

section \<open>Operation logs\<close>

text \<open>
  A log is opened in append mode after its parent directory has been created; the handle
  is the path when the open succeeded.  \<open>what\<close> is the word of the diagnostic.
\<close>

type_synonym log_file = "string option"

definition open_log :: "env \<Rightarrow> world \<Rightarrow> string \<Rightarrow> string \<Rightarrow> world \<times> log_file" where
  "open_log X w logPath what =
     (if logPath = [] then (w, None)
      else
        (let w1 = createDirectory w (getParentDirFromPath X logPath)
         in case open_write False (fs w1) logPath of
              Some fs' \<Rightarrow> (w1\<lparr>fs := fs'\<rparr>, Some logPath)
            | None \<Rightarrow> (logMessage w1 (''Failed to open '' @ what @ '' log file: '' @ logPath), None)))"

definition writeLog :: "world \<Rightarrow> log_file \<Rightarrow> string \<Rightarrow> world" where
  "writeLog w logFile line =
     (case logFile of
        Some p \<Rightarrow> w\<lparr>fs := append_bytes (fs w) p (line @ [CHR 0x0A])\<rparr>
      | None \<Rightarrow> logMessage w ''Failed to write to log file.'')"

text \<open>The guarded call \<^verbatim>\<open>if (logFile.is_open()) writeLog(logFile, line)\<close>.\<close>

definition log_if_open :: "world \<Rightarrow> log_file \<Rightarrow> string \<Rightarrow> world" where
  "log_if_open w logFile line = (if logFile \<noteq> None then writeLog w logFile line else w)"

section \<open>Single-file copy engine\<close>

text \<open>How a call of \<^verbatim>\<open>copySingleFile\<close> ended; the source returns nothing.\<close>

datatype copy_outcome = Completed | Aborted | WriteFailed | OpenGaveUp

definition maxRetries :: nat where
  "maxRetries = 10"

definition show_nat :: "nat \<Rightarrow> string" where
  "show_nat n = (if n < 10 then [char_of (48 + n)] else [char_of (48 + n div 10), char_of (48 + n mod 10)])"

definition retry_message :: "nat \<Rightarrow> string" where
  "retry_message retryCount = ''Error opening files for copying. Retry #'' @ show_nat retryCount"

text \<open>
  One pass of the opening loop: the source is opened, then the destination (created or
  emptied when that open succeeds, whatever the source did).  The bytes the source handle
  will deliver are those of the file once the destination has been opened.
\<close>

definition open_both :: "world \<Rightarrow> string \<Rightarrow> string \<Rightarrow> world \<times> string option" where
  "open_both w fromFile toFile =
     (let (faults, w1) = (case open_faults w of [] \<Rightarrow> ((False, False), w)
                          | f # fs' \<Rightarrow> (f, w\<lparr>open_faults := fs'\<rparr>));
          srcFile = (if fst faults then None else open_read (fs w1) fromFile);
          destFile = (if snd faults then None else open_write True (fs w1) toFile);
          w2 = (case destFile of None \<Rightarrow> w1 | Some fs' \<Rightarrow> w1\<lparr>fs := fs'\<rparr>)
      in if srcFile \<noteq> None \<and> destFile \<noteq> None
         then (w2, Some (case open_read (fs w2) fromFile of None \<Rightarrow> [] | Some b \<Rightarrow> b))
         else (w2, None))"

text \<open>
  The opening loop, entered with \<open>retryCount\<close>.  It returns the bytes to copy, or
  \<open>None\<close> when it gave up, and the number of passes it made from this entry on.
\<close>

function open_retry :: "world \<Rightarrow> string \<Rightarrow> string \<Rightarrow> nat \<Rightarrow> world \<times> string option \<times> nat" where
  "open_retry w fromFile toFile retryCount =
     (case open_both w fromFile toFile of
        (w1, Some data) \<Rightarrow> (w1, Some data, 1)
      | (w1, None) \<Rightarrow>
          (let w2 = logMessage w1 (retry_message retryCount)
           in if retryCount + 1 > maxRetries
              then (logMessage w2 ''Error max retry count exceeded.'', None, 1)
              else (case open_retry w2 fromFile toFile (retryCount + 1) of
                      (w3, r, n) \<Rightarrow> (w3, r, n + 1))))"
  by pat_completeness auto
termination
  by (relation "measure (\<lambda>(w, fromFile, toFile, retryCount). maxRetries + 1 - retryCount)") auto

text \<open>One read of at most \<open>COPY_BUFFER_SIZE\<close> bytes; the flag tells a failed read.\<close>

definition read_chunk :: "world \<Rightarrow> string \<Rightarrow> world \<times> string \<times> bool" where
  "read_chunk w data =
     (case read_faults w of
        [] \<Rightarrow> (w, take (COPY_BUFFER_SIZE w) data, False)
      | f # fs' \<Rightarrow> (w\<lparr>read_faults := fs'\<rparr>, if f then [] else take (COPY_BUFFER_SIZE w) data, f))"

text \<open>One write call on the destination: the number of bytes it took.\<close>

definition write_some :: "world \<Rightarrow> string \<Rightarrow> string \<Rightarrow> world \<times> nat" where
  "write_some w toFile bytes =
     (let (written, w1) = (case write_caps w of [] \<Rightarrow> (length bytes, w)
                           | c # cs \<Rightarrow> (min c (length bytes), w\<lparr>write_caps := cs\<rparr>))
      in (w1\<lparr>fs := append_bytes (fs w1) toFile (take written bytes)\<rparr>, written))"

text \<open>The inner loop of the \<^verbatim>\<open>FILE*\<close> backend: short writes are continued, a write of
  nothing is fatal.\<close>

function fwrite_all :: "world \<Rightarrow> string \<Rightarrow> string \<Rightarrow> nat \<Rightarrow> world \<times> bool" where
  "fwrite_all w toFile chunk bytesWritten =
     (if bytesWritten < length chunk then
        (case write_some w toFile (drop bytesWritten chunk) of
           (w1, written) \<Rightarrow>
             if written = 0 then (logMessage w1 ''Error writing to destination file.'', False)
             else fwrite_all w1 toFile chunk (bytesWritten + written))
      else (w, True))"
  by pat_completeness auto
termination
  by (relation "measure (\<lambda>(w, toFile, chunk, bytesWritten). length chunk - bytesWritten)") auto

text \<open>The stream backend writes the chunk in one call and tests the stream afterwards.\<close>

definition stream_write :: "world \<Rightarrow> string \<Rightarrow> string \<Rightarrow> world \<times> bool" where
  "stream_write w toFile chunk =
     (case write_some w toFile chunk of
        (w1, written) \<Rightarrow>
          if written < length chunk then (logMessage w1 ''Error writing to destination file.'', False)
          else (w1, True))"

definition write_chunk :: "env \<Rightarrow> world \<Rightarrow> string \<Rightarrow> string \<Rightarrow> world \<times> bool" where
  "write_chunk X w toFile chunk =
     (if NO_FSTREAM_DIRECTIVE X then fwrite_all w toFile chunk 0 else stream_write w toFile chunk)"

text \<open>
  Both early returns end the same way: the destination is removed and \<open>-1\<close> published.
  The stream backend closes both streams before it calls \<^verbatim>\<open>remove\<close>; the \<^verbatim>\<open>FILE*\<close>
  backend calls \<^verbatim>\<open>remove\<close> first and lets its guards close the handles on return.  The
  model takes \<^verbatim>\<open>remove\<close> to succeed on a regular file whether or not a handle is still
  open on it.
\<close>

definition discard_destination :: "world \<Rightarrow> string \<Rightarrow> world" where
  "discard_destination w toFile =
     store_copyPercentage
       (case remove_file (fs w) toFile of Inl e \<Rightarrow> w | Inr fs' \<Rightarrow> w\<lparr>fs := fs'\<rparr>) (- 1)"

text \<open>What follows a chunk that was written in full.\<close>

definition account_chunk :: "world \<Rightarrow> int \<Rightarrow> nat \<Rightarrow> int \<Rightarrow> world \<times> int" where
  "account_chunk w totalBytesCopied bytesRead totalSize =
     (let totalBytesCopied' = ll (totalBytesCopied + int bytesRead)
      in (if 0 < totalSize
          then store_copyPercentage w (int_cast (ll_div (ll (100 * totalBytesCopied')) totalSize))
          else w,
          totalBytesCopied'))"

text \<open>The transfer loop over the bytes still to be read.\<close>

function copy_loop :: "env \<Rightarrow> world \<Rightarrow> string \<Rightarrow> string \<Rightarrow> int \<Rightarrow> int \<Rightarrow> world \<times> int \<times> copy_outcome" where
  "copy_loop X w toFile data totalBytesCopied totalSize =
     (case read_chunk w data of
        (w1, chunk, failed) \<Rightarrow>
          if chunk = [] then
            (if NO_FSTREAM_DIRECTIVE X \<and> (failed \<or> COPY_BUFFER_SIZE w = 0)
             then logMessage w1 ''Error reading from source file.'' else w1,
             totalBytesCopied, Completed)
          else
            (case load_abortFileOp w1 of
               (abort, w2) \<Rightarrow>
                 if abort then (discard_destination w2 toFile, totalBytesCopied, Aborted)
                 else
                   (case write_chunk X w2 toFile chunk of
                      (w3, ok) \<Rightarrow>
                        if \<not> ok then (discard_destination w3 toFile, totalBytesCopied, WriteFailed)
                        else
                          (case account_chunk w3 totalBytesCopied (length chunk) totalSize of
                             (w4, totalBytesCopied') \<Rightarrow>
                               copy_loop X w4 toFile (drop (length chunk) data)
                                 totalBytesCopied' totalSize))))"
  by pat_completeness auto
termination
  by (relation "measure (\<lambda>(X, w, toFile, data, totalBytesCopied, totalSize). length data)")
     (auto simp: read_chunk_def split: list.splits if_splits)

definition copySingleFile ::
  "env \<Rightarrow> world \<Rightarrow> string \<Rightarrow> string \<Rightarrow> int \<Rightarrow> int \<Rightarrow> string \<Rightarrow> string \<Rightarrow> world \<times> int \<times> copy_outcome" where
  "copySingleFile X w fromFile toFile totalBytesCopied totalSize logSource logDestination =
     (let w1 = createDirectory w (getParentDirFromPath X toFile)
      in case open_retry w1 fromFile toFile 0 of
           (w2, None, tries) \<Rightarrow> (w2, totalBytesCopied, OpenGaveUp)
         | (w2, Some data, tries) \<Rightarrow>
             (case open_log X w2 logSource ''source'' of
                (w3, logSourceFile) \<Rightarrow>
                  (case open_log X w3 logDestination ''destination'' of
                     (w4, logDestinationFile) \<Rightarrow>
                       (case copy_loop X w4 toFile data totalBytesCopied totalSize of
                          (w5, totalBytesCopied', Completed) \<Rightarrow>
                            (log_if_open (log_if_open w5 logSourceFile fromFile)
                               logDestinationFile toFile,
                             totalBytesCopied', Completed)
                        | (w5, totalBytesCopied', outcome) \<Rightarrow> (w5, totalBytesCopied', outcome)))))"

section \<open>Size accountant\<close>

text \<open>
  The loops whose end depends on the tree take a step budget and return \<open>None\<close> when it
  is used up.  The inner \<^verbatim>\<open>readdir\<close> loop of \<^verbatim>\<open>getTotalSize\<close> runs over the names of
  one directory; the outer loop takes the directory at the front of the queue.
\<close>

fun getTotalSize_entries :: "node \<Rightarrow> string \<Rightarrow> string list \<Rightarrow> int \<Rightarrow> string list \<Rightarrow> int \<times> string list" where
  "getTotalSize_entries root currentPath [] totalSize directories = (totalSize, directories)"
| "getTotalSize_entries root currentPath (d_name # rest) totalSize directories =
     (if d_name = ''.'' \<or> d_name = ''..''
      then getTotalSize_entries root currentPath rest totalSize directories
      else
        (let newPath = currentPath @ ''/'' @ d_name
         in case lstat root newPath of
              None \<Rightarrow> getTotalSize_entries root currentPath rest totalSize directories
            | Some statbuf \<Rightarrow>
                if S_ISREG (st_mode statbuf)
                then getTotalSize_entries root currentPath rest
                       (ll (totalSize + int (st_size statbuf))) directories
                else if S_ISDIR (st_mode statbuf)
                then getTotalSize_entries root currentPath rest totalSize (directories @ [newPath])
                else getTotalSize_entries root currentPath rest totalSize directories))"

fun getTotalSize_loop :: "nat \<Rightarrow> node \<Rightarrow> string list \<Rightarrow> int \<Rightarrow> int option" where
  "getTotalSize_loop fuel root [] totalSize = Some totalSize"
| "getTotalSize_loop 0 root (currentPath # directories) totalSize = None"
| "getTotalSize_loop (Suc fuel) root (currentPath # directories) totalSize =
     (case readdir_all root currentPath of
        None \<Rightarrow> getTotalSize_loop fuel root directories totalSize
      | Some names \<Rightarrow>
          (case getTotalSize_entries root currentPath names totalSize directories of
             (totalSize', directories') \<Rightarrow> getTotalSize_loop fuel root directories' totalSize'))"

definition getTotalSize :: "nat \<Rightarrow> node \<Rightarrow> string \<Rightarrow> int option" where
  "getTotalSize fuel root path =
     (case lstat root path of
        None \<Rightarrow> Some 0
      | Some statbuf \<Rightarrow>
          if S_ISREG (st_mode statbuf) then Some (int (st_size statbuf))
          else if S_ISDIR (st_mode statbuf) then getTotalSize_loop fuel root [path] 0
          else Some 0)"

section \<open>Copy of a file or a directory\<close>

fun copy_entries :: "string \<Rightarrow> string \<Rightarrow> string list \<Rightarrow> (string \<times> string) list \<Rightarrow> (string \<times> string) list" where
  "copy_entries currentFromPath currentToPath [] directories = directories"
| "copy_entries currentFromPath currentToPath (d_name # rest) directories =
     (if d_name = ''.'' \<or> d_name = ''..''
      then copy_entries currentFromPath currentToPath rest directories
      else copy_entries currentFromPath currentToPath rest
             (directories @ [(currentFromPath @ ''/'' @ d_name, currentToPath @ ''/'' @ d_name)]))"

text \<open>
  The loop over the vector \<open>directories\<close> with its index.  The flag of the result tells
  whether the loop ran to its end (\<open>False\<close>: it returned at the abort check).
\<close>

fun copyFileOrDirectory_loop ::
  "nat \<Rightarrow> env \<Rightarrow> world \<Rightarrow> (string \<times> string) list \<Rightarrow> nat \<Rightarrow> int \<Rightarrow> int \<Rightarrow> string \<Rightarrow> string
   \<Rightarrow> (world \<times> int \<times> bool) option" where
  "copyFileOrDirectory_loop 0 X w directories currentDirectoryIndex totalBytesCopied totalSize
     logSource logDestination =
     (if currentDirectoryIndex < length directories then None
      else Some (w, totalBytesCopied, True))"
| "copyFileOrDirectory_loop (Suc fuel) X w directories currentDirectoryIndex totalBytesCopied totalSize
     logSource logDestination =
     (if \<not> currentDirectoryIndex < length directories then Some (w, totalBytesCopied, True)
      else
        (case load_abortFileOp w of
           (abort, w1) \<Rightarrow>
             if abort then Some (store_copyPercentage w1 (- 1), totalBytesCopied, False)
             else
               (let currentFromPath = fst (directories ! currentDirectoryIndex);
                    currentToPath = snd (directories ! currentDirectoryIndex);
                    idx = currentDirectoryIndex + 1
                in case stat (fs w1) currentFromPath of
                     None \<Rightarrow>
                       copyFileOrDirectory_loop fuel X
                         (logMessage w1 (''Failed to get stat of '' @ currentFromPath))
                         directories idx totalBytesCopied totalSize logSource logDestination
                   | Some fromStat \<Rightarrow>
                       if S_ISREG (st_mode fromStat) then
                         (let filename = getNameFromPath X currentFromPath;
                              toFilePath = getParentDirFromPath X currentToPath @ ''/'' @ filename;
                              w2 = createDirectory w1 (getParentDirFromPath X toFilePath)
                          in case copySingleFile X w2 currentFromPath toFilePath totalBytesCopied
                                    totalSize logSource logDestination of
                               (w3, totalBytesCopied', outcome) \<Rightarrow>
                                 copyFileOrDirectory_loop fuel X
                                   (if 0 < totalSize
                                    then store_copyPercentage w3
                                           (int_cast (ll_div (ll (totalBytesCopied' * 100)) totalSize))
                                    else w3)
                                   directories idx totalBytesCopied' totalSize logSource logDestination)
                       else if S_ISDIR (st_mode fromStat) then
                         (case readdir_all (fs w1) currentFromPath of
                            None \<Rightarrow>
                              copyFileOrDirectory_loop fuel X
                                (logMessage w1 (''Failed to open directory: '' @ currentFromPath))
                                directories idx totalBytesCopied totalSize logSource logDestination
                          | Some names \<Rightarrow>
                              copyFileOrDirectory_loop fuel X w1
                                (copy_entries currentFromPath currentToPath names directories)
                                idx totalBytesCopied totalSize logSource logDestination)
                       else
                         copyFileOrDirectory_loop fuel X w1 directories idx totalBytesCopied totalSize
                           logSource logDestination)))"

text \<open>
  \<open>totalBytesCopied\<close> is the pointer argument: \<open>None\<close> for \<^verbatim>\<open>nullptr\<close>, otherwise the
  caller's accumulator, whose value after the call is returned with the state.
\<close>

definition copyFileOrDirectory ::
  "nat \<Rightarrow> env \<Rightarrow> world \<Rightarrow> string \<Rightarrow> string \<Rightarrow> int option \<Rightarrow> int \<Rightarrow> string \<Rightarrow> string
   \<Rightarrow> (error + world \<times> int) option" where
  "copyFileOrDirectory fuel X w fromPath toPath totalBytesCopied totalSize logSource logDestination =
     (let isTopLevelCall = (totalBytesCopied = None);
          tempBytesCopied = 0
      in case (if isTopLevelCall then getTotalSize fuel (fs w) fromPath else Some totalSize) of
           None \<Rightarrow> None
         | Some totalSize' \<Rightarrow>
             (let bytesCopied = (case totalBytesCopied of None \<Rightarrow> tempBytesCopied | Some a \<Rightarrow> a)
              in case str_back toPath of
                   Inl e \<Rightarrow> Some (Inl e)
                 | Inr c \<Rightarrow>
                     if c \<noteq> CHR ''/'' then
                       (let w1 = createDirectory w (getParentDirFromPath X toPath)
                        in case copySingleFile X w1 fromPath toPath bytesCopied totalSize'
                                  logSource logDestination of
                             (w2, bytesCopied', outcome) \<Rightarrow> Some (Inr (w2, bytesCopied')))
                     else
                       (let w1 = createDirectory w toPath
                        in case copyFileOrDirectory_loop fuel X w1 [(fromPath, toPath)] 0 bytesCopied
                                  totalSize' logSource logDestination of
                             None \<Rightarrow> None
                           | Some (w2, bytesCopied', finished) \<Rightarrow>
                               Some (Inr (if finished \<and> isTopLevelCall
                                          then store_copyPercentage w2 100 else w2,
                                          bytesCopied')))))"

section \<open>Batch copy\<close>




section \<open>Iterative delete engine\<close>

text \<open>
  The stack is a list whose head is \<^verbatim>\<open>stack.back()\<close>.  \<open>push_children\<close> is the
  \<^verbatim>\<open>readdir\<close> loop: it pushes every child under a name that ends in \<open>/\<close> and clears
  \<open>isEmpty\<close>.
\<close>

fun push_children :: "string \<Rightarrow> string list \<Rightarrow> string list \<Rightarrow> bool \<Rightarrow> string list \<times> bool" where
  "push_children currentPath [] stack isEmpty = (stack, isEmpty)"
| "push_children currentPath (fileName # rest) stack isEmpty =
     (if fileName \<noteq> ''.'' \<and> fileName \<noteq> ''..'' then
        (let filePath = currentPath @ fileName
         in push_children currentPath rest
              ((filePath @ (if filePath \<noteq> [] \<and> last filePath = CHR ''/'' then [] else ''/'')) # stack)
              False)
      else push_children currentPath rest stack isEmpty)"

text \<open>What one turn of the \<^verbatim>\<open>while\<close> loop did with the path on top of the stack.\<close>

datatype delete_action = Popped | RemoveCalled string | ChildrenPushed string | RmdirCalled string

text \<open>One turn of the loop: \<open>currentPath\<close> is on top of \<open>stack\<close>.\<close>

definition delete_body :: "world \<Rightarrow> log_file \<Rightarrow> string \<Rightarrow> string list \<Rightarrow> world \<times> string list \<times> delete_action" where
  "delete_body w logSourceFile currentPath stack =
     (case stat (fs w) currentPath of
        None \<Rightarrow> (w, stack, Popped)
      | Some pathStat \<Rightarrow>
          if S_ISREG (st_mode pathStat) then
            (case remove_file (fs w) currentPath of
               Inr fs' \<Rightarrow> (log_if_open (w\<lparr>fs := fs'\<rparr>) logSourceFile currentPath, stack,
                           RemoveCalled currentPath)
             | Inl e \<Rightarrow> (logMessage w (''Failed to delete file: '' @ currentPath), stack,
                         RemoveCalled currentPath))
          else if S_ISDIR (st_mode pathStat) then
            (case readdir_all (fs w) currentPath of
               None \<Rightarrow> (logMessage w (''Failed to open directory: '' @ currentPath), stack, Popped)
             | Some names \<Rightarrow>
                 (case push_children currentPath names (currentPath # stack) True of
                    (stack', isEmpty) \<Rightarrow>
                      if isEmpty then
                        (case rmdir (fs w) currentPath of
                           Inr fs' \<Rightarrow> (w\<lparr>fs := fs'\<rparr>, stack, RmdirCalled currentPath)
                         | Inl e \<Rightarrow> (logMessage w (''Failed to delete directory: '' @ currentPath),
                                     stack, RmdirCalled currentPath))
                      else (w, stack', ChildrenPushed currentPath)))
          else (logMessage w (''Unknown file type: '' @ currentPath), stack, Popped))"

fun delete_loop :: "nat \<Rightarrow> world \<Rightarrow> log_file \<Rightarrow> string list \<Rightarrow> world option" where
  "delete_loop fuel w logSourceFile [] = Some w"
| "delete_loop 0 w logSourceFile (currentPath # stack) = None"
| "delete_loop (Suc fuel) w logSourceFile (currentPath # stack) =
     (case delete_body w logSourceFile currentPath stack of
        (w', stack', action) \<Rightarrow> delete_loop fuel w' logSourceFile stack')"

definition deleteFileOrDirectory :: "nat \<Rightarrow> env \<Rightarrow> world \<Rightarrow> string \<Rightarrow> string \<Rightarrow> (error + world) option" where
  "deleteFileOrDirectory fuel X w pathToDelete logSource =
     (case str_back pathToDelete of
        Inl e \<Rightarrow> Some (Inl e)
      | Inr c \<Rightarrow>
          (let pathIsFile = (c \<noteq> CHR ''/'')
           in case open_log X w logSource ''source'' of
                (w1, logSourceFile) \<Rightarrow>
                  if pathIsFile then
                    Some (Inr
                      (if isFile w1 pathToDelete then
                         (case remove_file (fs w1) pathToDelete of
                            Inr fs' \<Rightarrow> log_if_open (w1\<lparr>fs := fs'\<rparr>) logSourceFile pathToDelete
                          | Inl e \<Rightarrow> logMessage w1 (''Failed to delete file: '' @ pathToDelete))
                       else w1))
                  else map_option Inr (delete_loop fuel w1 logSourceFile [pathToDelete])))"

section \<open>Mirror\<close>

text \<open>The first loop of \<^verbatim>\<open>mirrorFiles\<close>, which adds up the sizes of the files it will copy.\<close>

fun mirror_total :: "nat \<Rightarrow> node \<Rightarrow> string \<Rightarrow> string \<Rightarrow> string list \<Rightarrow> int \<Rightarrow> (error + int) option" where
  "mirror_total fuel root sourcePath targetPath [] totalSize = Some (Inr totalSize)"
| "mirror_total fuel root sourcePath targetPath (path # rest) totalSize =
     (case substr_from path (length sourcePath) of
        Inl e \<Rightarrow> Some (Inl e)
      | Inr relative \<Rightarrow>
          if path \<noteq> targetPath @ relative then
            (case getTotalSize fuel root path of
               None \<Rightarrow> None
             | Some s \<Rightarrow> mirror_total fuel root sourcePath targetPath rest (ll (totalSize + s)))
          else mirror_total fuel root sourcePath targetPath rest totalSize)"

text \<open>The second loop; the number in the result counts the calls of
  \<^verbatim>\<open>copyFileOrDirectory\<close> it made.\<close>

fun mirror_each ::
  "nat \<Rightarrow> env \<Rightarrow> world \<Rightarrow> string \<Rightarrow> string \<Rightarrow> string \<Rightarrow> string list \<Rightarrow> int \<Rightarrow> int \<Rightarrow> nat
   \<Rightarrow> (error + world \<times> nat) option" where
  "mirror_each fuel X w sourcePath targetPath mode [] totalBytesCopied totalSize copies =
     Some (Inr (w, copies))"
| "mirror_each fuel X w sourcePath targetPath mode (path # rest) totalBytesCopied totalSize copies =
     (case substr_from path (length sourcePath) of
        Inl e \<Rightarrow> Some (Inl e)
      | Inr relative \<Rightarrow>
          (let updatedPath = targetPath @ relative
           in if mode = ''delete'' then
                (case deleteFileOrDirectory fuel X w updatedPath [] of
                   None \<Rightarrow> None
                 | Some (Inl e) \<Rightarrow> Some (Inl e)
                 | Some (Inr w1) \<Rightarrow>
                     mirror_each fuel X w1 sourcePath targetPath mode rest totalBytesCopied totalSize copies)
              else if mode = ''copy'' then
                (if path \<noteq> updatedPath then
                   (case copyFileOrDirectory fuel X w path updatedPath (Some totalBytesCopied)
                           totalSize [] [] of
                      None \<Rightarrow> None
                    | Some (Inl e) \<Rightarrow> Some (Inl e)
                    | Some (Inr (w1, totalBytesCopied')) \<Rightarrow>
                        mirror_each fuel X w1 sourcePath targetPath mode rest totalBytesCopied'
                          totalSize (copies + 1))
                 else mirror_each fuel X w sourcePath targetPath mode rest totalBytesCopied totalSize copies)
              else mirror_each fuel X w sourcePath targetPath mode rest totalBytesCopied totalSize copies))"

definition mirrorFiles :: "nat \<Rightarrow> env \<Rightarrow> world \<Rightarrow> string \<Rightarrow> string \<Rightarrow> string \<Rightarrow> (error + world \<times> nat) option" where
  "mirrorFiles fuel X w sourcePath targetPath mode =
     (let fileList = getFilesListFromDirectory X (fs w) sourcePath
      in case (if mode = ''copy'' then mirror_total fuel (fs w) sourcePath targetPath fileList 0
               else Some (Inr 0)) of
           None \<Rightarrow> None
         | Some (Inl e) \<Rightarrow> Some (Inl e)
         | Some (Inr totalSize) \<Rightarrow>
             mirror_each fuel X w sourcePath targetPath mode fileList 0 totalSize 0)"

section \<open>A concrete volume\<close>

text \<open>
  Modelled from the spec: the path helpers, the wildcard expansion and the flat listing
  are not in the files at hand, and the spec only names them (parent directory, base
  name, \<open>expand\<close>, \<open>listAllFiles\<close>).  The general statements below hold for every
  choice of them; the concrete runs use this one.  The parent directory of a path is the
  path up to and including its last \<open>/\<close>; the base name is the last piece once trailing
  separators are cut; a pattern without \<open>*\<close> expands to itself when it names something
  and to nothing otherwise; the listing gives every regular file below the directory
  under the name the directory was given.
\<close>

definition sample_getParentDirFromPath :: "string \<Rightarrow> string" where
  "sample_getParentDirFromPath path = rev (dropWhile (\<lambda>c. c \<noteq> CHR ''/'') (rev path))"

definition sample_getFileName :: "string \<Rightarrow> string" where
  "sample_getFileName path = rev (takeWhile (\<lambda>c. c \<noteq> CHR ''/'') (rev path))"

definition sample_getNameFromPath :: "string \<Rightarrow> string" where
  "sample_getNameFromPath path =
     sample_getFileName (rev (dropWhile (\<lambda>c. c = CHR ''/'') (rev path)))"

definition sample_getFilesListByWildcards :: "node \<Rightarrow> string \<Rightarrow> string list" where
  "sample_getFilesListByWildcards root pattern =
     (if CHR ''*'' \<in> set pattern then []
      else if stat root pattern \<noteq> None then [pattern] else [])"

fun files_below :: "node \<Rightarrow> string \<Rightarrow> string list" where
  "files_below (File b) path = [path]"
| "files_below (Dir r es) path = concat (map (\<lambda>e. files_below (snd e) (path @ ''/'' @ fst e)) es)"
| "files_below Other path = []"

definition sample_getFilesListFromDirectory :: "node \<Rightarrow> string \<Rightarrow> string list" where
  "sample_getFilesListFromDirectory root directoryPath =
     (case resolve directoryPath of
        None \<Rightarrow> []
      | Some cs \<Rightarrow>
          (case lookup root cs of
             Some (Dir r es) \<Rightarrow>
               concat (map (\<lambda>e. files_below (snd e) (directoryPath @ fst e)) es)
           | _ \<Rightarrow> []))"

definition sample_env :: env where
  "sample_env =
     \<lparr>NO_FSTREAM_DIRECTIVE = False,
      getParentDirFromPath = sample_getParentDirFromPath,
      getNameFromPath = sample_getNameFromPath,
      getFileName = sample_getFileName,
      getFilesListByWildcards = sample_getFilesListByWildcards,
      getFilesListFromDirectory = sample_getFilesListFromDirectory\<rparr>"

text \<open>
  A small volume: \<open>a/b.txt\<close> (4 bytes), \<open>a/c/k/d.txt\<close> (10 bytes) three directories
  deep, and an empty file \<open>e.bin\<close>.  The chunk size is set to 4 bytes so that short
  files take several chunks; every fault list is empty.
\<close>

definition sample_fs :: node where
  "sample_fs =
     Dir True
       [(''a'', Dir True
                  [(''b.txt'', File ''abcd''),
                   (''c'', Dir True [(''k'', Dir True [(''d.txt'', File ''0123456789'')])])]),
        (''e.bin'', File [])]"

definition sample_world :: world where
  "sample_world =
     \<lparr>fs = sample_fs, copyPercentage = - 1, published = [], COPY_BUFFER_SIZE = 4, diag = [],
      abort_reads = [], open_faults = [], read_faults = [], write_caps = []\<rparr>"

section \<open>Notions used in the statements\<close>

text \<open>\<open>keeps_progress w w'\<close>: going from \<open>w\<close> to \<open>w'\<close> touched nothing but the file
  system, the diagnostics and the script of open faults.\<close>

definition keeps_progress :: "world \<Rightarrow> world \<Rightarrow> bool" where
  "keeps_progress w w' =
     (copyPercentage w' = copyPercentage w \<and> published w' = published w \<and>
      COPY_BUFFER_SIZE w' = COPY_BUFFER_SIZE w \<and> abort_reads w' = abort_reads w \<and>
      read_faults w' = read_faults w \<and> write_caps w' = write_caps w)"

text \<open>The percentages that a run of chunks of the given sizes makes visible, starting from
  the accumulator \<open>acc\<close>: after each chunk, the floor of a hundred times the bytes so far
  over the total size.\<close>

fun running_percent :: "int \<Rightarrow> int \<Rightarrow> nat list \<Rightarrow> int list" where
  "running_percent acc totalSize [] = []"
| "running_percent acc totalSize (n # ns) =
     (100 * (acc + int n)) div totalSize # running_percent (acc + int n) totalSize ns"

text \<open>\<open>node_mode\<close> is the kind \<^verbatim>\<open>stat\<close> reports for a node.  \<open>grows n n'\<close>: every path
  that names something in \<open>n\<close> names something of the same kind in \<open>n'\<close>.\<close>

fun node_mode :: "node \<Rightarrow> mode" where
  "node_mode (File b) = S_IFREG"
| "node_mode (Dir r es) = S_IFDIR"
| "node_mode Other = S_IFOTHER"

definition grows :: "node \<Rightarrow> node \<Rightarrow> bool" where
  "grows n n' = (\<forall>cs m. lookup n cs = Some m \<longrightarrow> (\<exists>m'. lookup n' cs = Some m' \<and> node_mode m' = node_mode m))"

text \<open>\<open>names_file root p\<close>: the path resolves, below the root, to a regular file.\<close>

definition names_file :: "node \<Rightarrow> string \<Rightarrow> bool" where
  "names_file root p =
     (case resolve p of None \<Rightarrow> False
      | Some cs \<Rightarrow> cs \<noteq> [] \<and> (case lookup root cs of Some (File b) \<Rightarrow> True | _ \<Rightarrow> False))"



text \<open>
  A well-formed tree: the names of a directory are distinct and each is a proper name
  (\<open>valid_name\<close>), all the way down.
\<close>

fun wf_node :: "node \<Rightarrow> bool" where
  "wf_node (File b) = True"
| "wf_node (Dir r es) = (distinct (map fst es) \<and> (\<forall>e \<in> set es. valid_name (fst e) \<and> wf_node (snd e)))"
| "wf_node Other = True"

text \<open>
  The size accountant as the spec words it: the byte length of a regular file; for a
  directory the sizes of all regular files reachable through readable directories, an
  unreadable directory contributing zero; zero for anything else and for a path that
  names nothing.
\<close>

fun tree_bytes :: "node \<Rightarrow> nat" where
  "tree_bytes (File b) = length b"
| "tree_bytes (Dir r es) = (if r then sum_list (map (\<lambda>e. tree_bytes (snd e)) es) else 0)"
| "tree_bytes Other = 0"

definition spec_totalSize :: "node \<Rightarrow> string \<Rightarrow> int" where
  "spec_totalSize root path =
     (case resolve path of None \<Rightarrow> 0
      | Some cs \<Rightarrow> (case lookup root cs of None \<Rightarrow> 0 | Some n \<Rightarrow> int (tree_bytes n)))"

text \<open>The number of directories the walk opens below and including a node.\<close>

fun walk_steps :: "node \<Rightarrow> nat" where
  "walk_steps (File b) = 0"
| "walk_steps (Dir r es) = 1 + (if r then sum_list (map (\<lambda>e. walk_steps (snd e)) es) else 0)"
| "walk_steps Other = 0"

text \<open>
  \<open>shape\<close> forgets the bytes of the files: the delete engine never looks at them.
  \<open>clean_tree\<close>: a well-formed tree made of regular files and readable directories only,
  that is, one on which no \<^verbatim>\<open>stat\<close> and no \<^verbatim>\<open>opendir\<close> fails and no entry is of an
  unknown kind.
\<close>

fun shape :: "node \<Rightarrow> node" where
  "shape (File b) = File []"
| "shape (Dir r es) = Dir r (map (\<lambda>e. (fst e, shape (snd e))) es)"
| "shape Other = Other"



section \<open>Facts about paths and the tree\<close>

text \<open>The equations of the loops are unfolded by hand, one turn at a time.\<close>

declare createDirectory_loop.simps [simp del]
declare open_retry.simps [simp del]
declare fwrite_all.simps [simp del]
declare copy_loop.simps [simp del]

lemma split_slash_nonempty [simp]: "split_slash s \<noteq> []"
  by (induction s) (auto split: list.splits)

lemma lookup_append:
  "lookup root (p @ q) = (case lookup root p of None \<Rightarrow> None | Some n \<Rightarrow> lookup n q)"
proof (induction p arbitrary: root)
  case Nil
  show ?case by simp
next
  case (Cons c p)
  show ?case by (cases root) (auto simp: Cons.IH split: option.splits)
qed

lemma map_of_map_entry:
  "map_of (map (\<lambda>e. if fst e = c then (fst e, h (snd e)) else e) es) d
     = (if d = c then map_option h (map_of es d) else map_of es d)"
  by (induction es) auto

lemma map_of_filter_entry:
  "map_of (filter (\<lambda>e. fst e \<noteq> c) es) d = (if d = c then None else map_of es d)"
  by (induction es) auto

lemma lookup_modify_below:
  "lookup (modify p g root) (p @ q) = (case lookup root p of None \<Rightarrow> None | Some n \<Rightarrow> lookup (g n) q)"
proof (induction p arbitrary: root)
  case Nil
  show ?case by simp
next
  case (Cons c p)
  show ?case by (cases root) (auto simp: Cons.IH map_of_map_entry split: option.splits)
qed

lemma lookup_modify_same:
  "lookup (modify p g root) p = map_option g (lookup root p)"
  using lookup_modify_below [of p g root "[]"] by (simp split: option.splits)

lemma stat_mode:
  "stat root p = (case resolve p of None \<Rightarrow> None
     | Some cs \<Rightarrow> (case lookup root cs of None \<Rightarrow> None
        | Some n \<Rightarrow> Some \<lparr>st_mode = node_mode n, st_size = (case n of File b \<Rightarrow> length b | _ \<Rightarrow> 0)\<rparr>))"
  by (auto simp: stat_def split: option.splits node.splits)

lemma grows_refl [simp]: "grows n n"
  by (simp add: grows_def)

lemma grows_trans: "grows a b \<Longrightarrow> grows b c \<Longrightarrow> grows a c"
  unfolding grows_def by (metis)

lemma grows_modify:
  "(\<And>n. lookup root p = Some n \<Longrightarrow> grows n (g n)) \<Longrightarrow> grows root (modify p g root)"
proof (induction p arbitrary: root)
  case Nil
  then show ?case by simp
next
  case (Cons c p)
  show ?case
  proof (cases root)
    case (Dir r es)
    show ?thesis unfolding grows_def
    proof (intro allI impI)
      fix cs m assume lk: "lookup root cs = Some m"
      show "\<exists>m'. lookup (modify (c # p) g root) cs = Some m' \<and> node_mode m' = node_mode m"
      proof (cases cs)
        case Nil
        with lk Dir show ?thesis by auto
      next
        case (Cons d cs')
        show ?thesis
        proof (cases "d = c")
          case False
          with lk Dir Cons show ?thesis by (auto simp: map_of_map_entry)
        next
          case True
          from lk Dir Cons True obtain k where k: "map_of es c = Some k" "lookup k cs' = Some m"
            by (auto split: option.splits)
          have "grows k (modify p g k)"
          proof (rule Cons.IH)
            fix n assume "lookup k p = Some n"
            with k Dir have "lookup root (c # p) = Some n" by simp
            then show "grows n (g n)" by (rule Cons.prems)
          qed
          with k(2) obtain m' where "lookup (modify p g k) cs' = Some m'" "node_mode m' = node_mode m"
            unfolding grows_def by blast
          with Dir Cons True k show ?thesis by (auto simp: map_of_map_entry)
        qed
      qed
    qed
  qed simp_all
qed

lemma grows_add_entry: "grows n (add_entry c new n)"
proof (cases n)
  case (Dir r es)
  show ?thesis unfolding grows_def
  proof (intro allI impI)
    fix cs m assume lk: "lookup n cs = Some m"
    show "\<exists>m'. lookup (add_entry c new n) cs = Some m' \<and> node_mode m' = node_mode m"
    proof (cases cs)
      case Nil
      with lk Dir show ?thesis by (auto simp: add_entry_def)
    next
      case (Cons d cs')
      with lk Dir show ?thesis by (auto simp: add_entry_def split: option.splits)
    qed
  qed
qed (simp_all add: add_entry_def)

lemma grows_create_at: "grows root (create_at cs new root)"
  unfolding create_at_def by (rule grows_modify) (rule grows_add_entry)

lemma grows_file_content: "grows (File b) (File b')"
  unfolding grows_def
proof (intro allI impI)
  fix cs m assume "lookup (File b) cs = Some m"
  then show "\<exists>m'. lookup (File b') cs = Some m' \<and> node_mode m' = node_mode m"
    by (cases cs) auto
qed

lemma grows_mkdir: "mkdir root p = Inr root' \<Longrightarrow> grows root root'"
  by (auto simp: mkdir_def grows_create_at split: option.splits if_splits node.splits)

lemma grows_open_write: "open_write trunc root p = Some root' \<Longrightarrow> grows root root'"
  by (auto simp: open_write_def grows_create_at grows_file_content
      intro!: grows_modify split: option.splits if_splits node.splits)

lemma grows_append_bytes: "grows root (append_bytes root p bytes)"
  unfolding append_bytes_def
  by (auto intro!: grows_modify simp: grows_file_content split: option.splits node.splits)

lemma open_write_is_file:
  "open_write trunc root p = Some root' \<Longrightarrow>
   \<exists>cs b. resolve p = Some cs \<and> cs \<noteq> [] \<and> lookup root' cs = Some (File b)"
proof -
  assume a: "open_write trunc root p = Some root'"
  then obtain cs where cs: "resolve p = Some cs" "cs \<noteq> []"
    by (auto simp: open_write_def split: option.splits if_splits)
  show ?thesis
  proof (cases "lookup root cs")
    case (Some n)
    with a cs obtain b where "n = File b"
      by (auto simp: open_write_def split: node.splits)
    with a cs Some have "root' = (if trunc then modify cs (\<lambda>n. File []) root else root)"
      by (auto simp: open_write_def)
    with Some \<open>n = File b\<close> cs show ?thesis by (auto simp: lookup_modify_same)
  next
    case None
    with a cs obtain r es where par: "lookup root (butlast cs) = Some (Dir r es)"
      and r': "root' = create_at cs (File []) root"
      by (auto simp: open_write_def split: option.splits node.splits if_splits)
    have split: "cs = butlast cs @ [last cs]" using cs by simp
    from None par have "map_of es (last cs) = None"
      using lookup_append [of root "butlast cs" "[last cs]"] split by (auto split: option.splits)
    then have "lookup (add_entry (last cs) (File []) (Dir r es)) [last cs] = Some (File [])"
      by (simp add: add_entry_def map_add_def)
    with par have "lookup root' (butlast cs @ [last cs]) = Some (File [])"
      unfolding r' create_at_def by (simp add: lookup_modify_below)
    with split cs show ?thesis by auto
  qed
qed

lemma lookup_unlink_at: "cs \<noteq> [] \<Longrightarrow> lookup (unlink_at cs root) cs = None"
proof -
  assume "cs \<noteq> []"
  then have split: "cs = butlast cs @ [last cs]" by simp
  have "lookup (unlink_at cs root) (butlast cs @ [last cs]) = None"
    unfolding unlink_at_def
    by (auto simp: lookup_modify_below drop_entry_def map_of_filter_entry split: option.splits node.splits)
  with split show ?thesis by simp
qed

lemma split_slash_append: "split_slash (a @ CHR ''/'' # b) = split_slash a @ split_slash b"
proof (induction a)
  case Nil
  show ?case by simp
next
  case (Cons c a)
  show ?case
  proof (cases "c = CHR ''/''")
    case True
    with Cons show ?thesis by simp
  next
    case False
    obtain x xs where s: "split_slash a = x # xs" by (cases "split_slash a") auto
    with Cons False show ?thesis by simp
  qed
qed

lemma split_slash_name: "CHR ''/'' \<notin> set nm \<Longrightarrow> split_slash nm = [nm]"
  by (induction nm) auto

lemma components_append:
  "components (a @ CHR ''/'' # b) = components a @ filter (\<lambda>x. x \<noteq> []) (split_slash b)"
proof -
  obtain x xs where s: "split_slash a = x # xs" by (cases "split_slash a") auto
  show ?thesis by (simp add: components_def split_slash_append s)
qed

lemma components_child:
  "valid_name nm \<Longrightarrow> components (a @ CHR ''/'' # nm) = components a @ [nm]"
  using components_append [of a nm] by (simp add: valid_name_def split_slash_name)



lemma resolve_child:
  "valid_name nm \<Longrightarrow> resolve (a @ ''/'' @ nm) = Some (components a @ [nm])"
  by (simp add: resolve_def components_child)

lemma wf_lookup: "wf_node root \<Longrightarrow> lookup root cs = Some n \<Longrightarrow> wf_node n"
proof (induction cs arbitrary: root)
  case Nil
  then show ?case by simp
next
  case (Cons c cs)
  from Cons.prems(2) obtain r es m where d: "root = Dir r es" "map_of es c = Some m" "lookup m cs = Some n"
    by (cases root) (auto split: option.splits)
  from d(2) have "(c, m) \<in> set es" by (rule map_of_SomeD)
  with Cons.prems(1) d(1) have "wf_node m" by auto
  from Cons.IH [OF this d(3)] show ?case .
qed

lemma lookup_child:
  "lookup root cs = Some (Dir r es) \<Longrightarrow> lookup root (cs @ [nm]) = map_of es nm"
  by (simp add: lookup_append split: option.splits)

section \<open>What directory creation and opening leave alone\<close>

lemma keeps_progress_refl [simp]: "keeps_progress w w"
  by (simp add: keeps_progress_def)

lemma keeps_progress_trans: "keeps_progress w w1 \<Longrightarrow> keeps_progress w1 w2 \<Longrightarrow> keeps_progress w w2"
  by (simp add: keeps_progress_def)

lemma keeps_progress_logMessage [simp]: "keeps_progress w (logMessage w' m) = keeps_progress w w'"
  by (simp add: keeps_progress_def logMessage_def)

lemma keeps_progress_fs_update [simp]: "keeps_progress w (w'\<lparr>fs := f\<rparr>) = keeps_progress w w'"
  by (simp add: keeps_progress_def)

lemma open_faults_logMessage [simp]: "open_faults (logMessage w m) = open_faults w"
  by (simp add: logMessage_def)

lemma createSingleDirectory_keeps:
  "keeps_progress w (createSingleDirectory w p) \<and> open_faults (createSingleDirectory w p) = open_faults w"
  by (simp add: createSingleDirectory_def split: sum.splits)

lemma createDirectory_loop_keeps:
  "keeps_progress w (fst (createDirectory_loop w path parentPath pos)) \<and>
   open_faults (fst (createDirectory_loop w path parentPath pos)) = open_faults w"
proof (induction w path parentPath pos rule: createDirectory_loop.induct)
  case (1 w path parentPath pos)
  show ?case
  proof (cases "str_find path CHR ''/'' pos")
    case None
    then show ?thesis
      by (simp add: createDirectory_loop.simps [of w path parentPath pos])
  next
    case (Some nextPos)
    show ?thesis
    proof (cases "nextPos \<noteq> pos")
      case True
      let ?pp = "parentPath @ substr path pos (nextPos - pos) @ ''/''"
      let ?w1 = "createSingleDirectory w ?pp"
      have step: "createDirectory_loop w path parentPath pos = createDirectory_loop ?w1 path ?pp (nextPos + 1)"
        using Some True by (simp add: createDirectory_loop.simps [of w path parentPath pos] Let_def)
      have ih: "keeps_progress ?w1 (fst (createDirectory_loop ?w1 path ?pp (nextPos + 1))) \<and>
                open_faults (fst (createDirectory_loop ?w1 path ?pp (nextPos + 1))) = open_faults ?w1"
        using "1.IH"(1) [OF Some True refl] .
      with createSingleDirectory_keeps [of w ?pp] show ?thesis
        unfolding step by (auto intro: keeps_progress_trans)
    next
      case False
      have step: "createDirectory_loop w path parentPath pos = createDirectory_loop w path parentPath (nextPos + 1)"
        using Some False by (simp add: createDirectory_loop.simps [of w path parentPath pos])
      show ?thesis unfolding step using "1.IH"(2) [OF Some False] .
    qed
  qed
qed

lemma createDirectory_keeps:
  "keeps_progress w (createDirectory w p) \<and> open_faults (createDirectory w p) = open_faults w"
proof -
  define path where "path = (if compare_prefix p ROOT_PATH then drop (length ROOT_PATH) p else p)"
  obtain w1 pp pos where l: "createDirectory_loop w path ROOT_PATH 0 = (w1, pp, pos)"
    by (cases "createDirectory_loop w path ROOT_PATH 0") auto
  have a: "keeps_progress w w1 \<and> open_faults w1 = open_faults w"
    using createDirectory_loop_keeps [of w path ROOT_PATH 0] l by simp
  have c: "createDirectory w p = (if pos < length path then createSingleDirectory w1 (pp @ drop pos path) else w1)"
    using l by (simp add: createDirectory_def Let_def path_def)
  show ?thesis
    unfolding c using a createSingleDirectory_keeps [of w1 "pp @ drop pos path"]
    by (auto intro: keeps_progress_trans)
qed

lemma open_both_keeps: "keeps_progress w (fst (open_both w fromFile toFile))"
  by (simp add: open_both_def Let_def keeps_progress_def split: list.splits option.splits prod.splits)

text \<open>An induction rule that follows the three ways one pass of the opening loop ends.\<close>

lemma open_retry_induct [consumes 1, case_names opened gave_up retried]:
  assumes run: "open_retry w fromFile toFile retryCount = res"
    and opened: "\<And>w f t k w1 d. open_both w f t = (w1, Some d) \<Longrightarrow> P w f t k (w1, Some d, 1)"
    and gave_up: "\<And>w f t k w1. open_both w f t = (w1, None) \<Longrightarrow> maxRetries < k + 1 \<Longrightarrow>
        P w f t k (logMessage (logMessage w1 (retry_message k))
                 ''Error max retry count exceeded.'', None, 1)"
    and retried: "\<And>w f t k w1 w3 r n. open_both w f t = (w1, None) \<Longrightarrow> \<not> maxRetries < k + 1 \<Longrightarrow>
        open_retry (logMessage w1 (retry_message k)) f t (k + 1) = (w3, r, n) \<Longrightarrow>
        P (logMessage w1 (retry_message k)) f t (k + 1) (w3, r, n) \<Longrightarrow>
        P w f t k (w3, r, n + 1)"
  shows "P w fromFile toFile retryCount res"
  using run
proof (induction w fromFile toFile retryCount arbitrary: res rule: open_retry.induct)
  case (1 w fromFile toFile retryCount)
  show ?case
  proof (cases "open_both w fromFile toFile")
    case (Pair w1 r1)
    show ?thesis
    proof (cases r1)
      case (Some d)
      with Pair "1.prems" have "res = (w1, Some d, 1)"
        by (auto simp: open_retry.simps [of w fromFile toFile retryCount])
      with opened [of w fromFile toFile w1 d retryCount] Pair Some show ?thesis by simp
    next
      case None
      let ?w2 = "logMessage w1 (retry_message retryCount)"
      show ?thesis
      proof (cases "maxRetries < retryCount + 1")
        case True
        with None Pair "1.prems" have "res = (logMessage ?w2 ''Error max retry count exceeded.'', None, 1)"
          by (auto simp: open_retry.simps [of w fromFile toFile retryCount] Let_def)
        with gave_up [of w fromFile toFile w1 retryCount] Pair None True show ?thesis by simp
      next
        case False
        obtain w3 r3 n3 where rec: "open_retry ?w2 fromFile toFile (retryCount + 1) = (w3, r3, n3)"
          by (cases "open_retry ?w2 fromFile toFile (retryCount + 1)") auto
        have ih: "P ?w2 fromFile toFile (retryCount + 1) (w3, r3, n3)"
          using "1.IH" [OF Pair [symmetric] None refl _ rec] False by simp
        from None Pair False rec "1.prems" have "res = (w3, r3, n3 + 1)"
          by (auto simp: open_retry.simps [of w fromFile toFile retryCount] Let_def)
        with retried [of w fromFile toFile w1 retryCount w3 r3 n3] Pair None False rec ih show ?thesis by simp
      qed
    qed
  qed
qed

lemma open_retry_keeps:
  "open_retry w fromFile toFile retryCount = res \<Longrightarrow> keeps_progress w (fst res)"
proof (induction rule: open_retry_induct)
  case (opened w f t k w1 d)
  then show ?case using open_both_keeps [of w f t] by simp
next
  case (gave_up w f t k w1)
  then show ?case using open_both_keeps [of w f t] by simp
next
  case (retried w f t k w1 w3 r n)
  then show ?case using open_both_keeps [of w f t]
    by (simp add: keeps_progress_def logMessage_def)
qed

lemma open_retry_count:
  "open_retry w fromFile toFile retryCount = res \<Longrightarrow> retryCount \<le> maxRetries \<Longrightarrow>
   snd (snd res) + retryCount \<le> maxRetries + 1 \<and>
   (fst (snd res) = None \<longrightarrow> snd (snd res) + retryCount = maxRetries + 1 \<and>
      diag (fst res) \<noteq> [] \<and> last (diag (fst res)) = ''Error max retry count exceeded.'')"
proof (induction rule: open_retry_induct)
  case (opened w f t k w1 d)
  then show ?case by simp
next
  case (gave_up w f t k w1)
  then show ?case by (simp add: logMessage_def)
next
  case (retried w f t k w1 w3 r n)
  then show ?case by simp
qed

section \<open>Flag files\<close>

text \<open>
  C10.  When the wildcard pattern expands to nothing, \<^verbatim>\<open>createFlagFiles\<close> returns at
  once: the state it returns is the state it was given, so neither the output directory
  nor any file has been created.
\<close>

theorem createFlagFiles_no_match:
  "getFilesListByWildcards X (fs w) wildcardPattern = [] \<Longrightarrow>
   createFlagFiles X w wildcardPattern outputDir = w"
  by (simp add: createFlagFiles_def)

lemma sample_no_flags_dir: "stat sample_fs ''flags/'' = None"
  by (simp add: stat_def resolve_def components_def sample_fs_def)

theorem createFlagFiles_no_match_witness:
  "getFilesListByWildcards sample_env (fs sample_world) ''a/*.nro'' = [] \<and>
   \<not> isFileOrDirectory sample_world ''flags/'' \<and>
   createFlagFiles sample_env sample_world ''a/*.nro'' ''flags/'' = sample_world"
proof -
  have h: "getFilesListByWildcards sample_env (fs sample_world) ''a/*.nro'' = []"
    by (simp add: sample_env_def sample_getFilesListByWildcards_def)
  have "\<not> isFileOrDirectory sample_world ''flags/''"
    by (simp add: isFileOrDirectory_def sample_world_def sample_no_flags_dir)
  with h createFlagFiles_no_match [OF h, of "''flags/''"] show ?thesis by simp
qed

section \<open>The opening loop of the copy engine\<close>

text \<open>
  C4, as the code has it.  When the opening loop of \<^verbatim>\<open>copySingleFile\<close> ends without
  handles, it has made exactly \<open>maxRetries + 1 = 11\<close> passes (the first attempt and ten
  retries), each opening the source and the destination once; the call then returns with
  the accumulator, the percentage and its history untouched, and the last diagnostic is
  the one that reports the give-up.
\<close>

theorem copySingleFile_open_gives_up:
  assumes "open_retry (createDirectory w (getParentDirFromPath X toFile)) fromFile toFile 0
             = (w2, None, tries)"
  shows "tries = 11 \<and>
         copySingleFile X w fromFile toFile totalBytesCopied totalSize logSource logDestination
           = (w2, totalBytesCopied, OpenGaveUp) \<and>
         copyPercentage w2 = copyPercentage w \<and> published w2 = published w \<and>
         diag w2 \<noteq> [] \<and> last (diag w2) = ''Error max retry count exceeded.''"
proof -
  let ?w1 = "createDirectory w (getParentDirFromPath X toFile)"
  have "tries = maxRetries + 1 \<and> diag w2 \<noteq> [] \<and> last (diag w2) = ''Error max retry count exceeded.''"
    using open_retry_count [OF assms] by simp
  moreover have "keeps_progress w w2"
    using open_retry_keeps [OF assms] createDirectory_keeps [of w "getParentDirFromPath X toFile"]
    by (auto intro: keeps_progress_trans)
  moreover have "copySingleFile X w fromFile toFile totalBytesCopied totalSize logSource logDestination
           = (w2, totalBytesCopied, OpenGaveUp)"
    using assms by (simp add: copySingleFile_def)
  ultimately show ?thesis by (simp add: maxRetries_def keeps_progress_def)
qed

lemma sample_open_run:
  "open_retry (createDirectory sample_world (getParentDirFromPath sample_env ''out/x.bin''))
     ''missing.bin'' ''out/x.bin'' 0
   = (sample_world\<lparr>fs := Dir True
         [(''a'', Dir True
                  [(''b.txt'', File ''abcd''),
                   (''c'', Dir True [(''k'', Dir True [(''d.txt'', File ''0123456789'')])])]),
          (''e.bin'', File []), (''out'', Dir True [(''x.bin'', File [])])],
        diag := map retry_message [0, 1, 2, 3, 4, 5, 6, 7, 8, 9, 10] @ [''Error max retry count exceeded.'']\<rparr>,
      None, 11)"
  by code_simp

theorem copySingleFile_open_gives_up_witness:
  "fst (snd (open_retry (createDirectory sample_world (getParentDirFromPath sample_env ''out/x.bin''))
               ''missing.bin'' ''out/x.bin'' 0)) = None \<and>
   snd (copySingleFile sample_env sample_world ''missing.bin'' ''out/x.bin'' 0 10 [] [])
     = (0, OpenGaveUp) \<and>
   copyPercentage (fst (copySingleFile sample_env sample_world ''missing.bin'' ''out/x.bin'' 0 10 [] []))
     = - 1"
  using copySingleFile_open_gives_up [OF sample_open_run, of 0 10 "[]" "[]"] sample_open_run
  by (simp add: sample_world_def)

text \<open>The source \<open>missing.bin\<close> does not exist: the loop opens eleven times, not ten.\<close>

theorem copySingleFile_ten_attempts_counterexample:
  "fst (snd (open_retry (createDirectory sample_world (getParentDirFromPath sample_env ''out/x.bin''))
               ''missing.bin'' ''out/x.bin'' 0)) = None \<and>
   \<not> snd (snd (open_retry (createDirectory sample_world (getParentDirFromPath sample_env ''out/x.bin''))
                  ''missing.bin'' ''out/x.bin'' 0)) \<le> 10"
  by (simp add: sample_open_run)

section \<open>Mirror of a directory onto itself\<close>

lemma substr_from_prefix:
  "prefix d path \<Longrightarrow> substr_from path (length d) = Inr (drop (length d) path) \<and>
     d @ drop (length d) path = path"
  by (auto simp: substr_from_def prefix_def)

lemma mirror_total_self:
  "\<forall>path \<in> set fileList. prefix d path \<Longrightarrow>
   mirror_total fuel root d d fileList totalSize = Some (Inr totalSize)"
  by (induction fileList arbitrary: totalSize) (simp_all add: substr_from_prefix)

lemma mirror_each_self:
  "\<forall>path \<in> set fileList. prefix d path \<Longrightarrow>
   mirror_each fuel X w d d ''copy'' fileList totalBytesCopied totalSize copies = Some (Inr (w, copies))"
  by (induction fileList arbitrary: totalBytesCopied) (simp_all add: substr_from_prefix)

text \<open>
  C8.  When every path of the listing of \<open>d\<close> starts with \<open>d\<close> (the listing gives the
  files under the name the directory was given), \<^verbatim>\<open>mirrorFiles(d, d, "copy")\<close> computes
  for each listed path a target equal to the path, calls \<^verbatim>\<open>copyFileOrDirectory\<close> zero
  times and returns the state unchanged, whatever the step budget.
\<close>

theorem mirrorFiles_copy_onto_itself:
  assumes "\<forall>path \<in> set (getFilesListFromDirectory X (fs w) d). prefix d path"
  shows "mirrorFiles fuel X w d d ''copy'' = Some (Inr (w, 0)) \<and>
         (\<forall>path \<in> set (getFilesListFromDirectory X (fs w) d).
            substr_from path (length d) = Inr (drop (length d) path) \<and>
            d @ drop (length d) path = path)"
  using assms
  by (simp add: mirrorFiles_def mirror_total_self mirror_each_self substr_from_prefix)

lemma sample_listing: "getFilesListFromDirectory sample_env (fs sample_world) ''a/'' = [''a/b.txt'', ''a/c/k/d.txt'']"
  by code_simp

theorem mirrorFiles_copy_onto_itself_witness:
  "getFilesListFromDirectory sample_env (fs sample_world) ''a/'' = [''a/b.txt'', ''a/c/k/d.txt''] \<and>
   mirrorFiles 0 sample_env sample_world ''a/'' ''a/'' ''copy'' = Some (Inr (sample_world, 0))"
proof -
  have "\<forall>path \<in> set (getFilesListFromDirectory sample_env (fs sample_world) ''a/''). prefix ''a/'' path"
    by (simp add: sample_listing)
  from mirrorFiles_copy_onto_itself [OF this, of 0] sample_listing show ?thesis by simp
qed

section \<open>Deleting a path that is not directory-denoted\<close>

lemma open_log_none [simp]: "open_log X w [] what = (w, None)"
  by (simp add: open_log_def)

text \<open>
  C9, as the code has it.  For a non-empty path that does not end in \<open>/\<close> the engine
  takes the file branch.  The log is opened first; if the path then does not name a
  regular file, the call returns the state that opening the log left: nothing is deleted
  and no diagnostic is added by the delete itself.  With no log path that state is the
  state the call was given.
\<close>

theorem deleteFileOrDirectory_not_a_file:
  assumes "pathToDelete \<noteq> []" and "last pathToDelete \<noteq> CHR ''/''"
    and "\<not> isFile (fst (open_log X w logSource ''source'')) pathToDelete"
  shows "deleteFileOrDirectory fuel X w pathToDelete logSource
           = Some (Inr (fst (open_log X w logSource ''source''))) \<and>
         (logSource = [] \<longrightarrow> deleteFileOrDirectory fuel X w pathToDelete logSource = Some (Inr w))"
  using assms
  by (cases "open_log X w logSource ''source''")
     (auto simp: deleteFileOrDirectory_def str_back_def)

theorem deleteFileOrDirectory_not_a_file_witness:
  "''a'' \<noteq> [] \<and> last ''a'' \<noteq> CHR ''/'' \<and> isDirectory sample_world ''a'' \<and>
   \<not> isFile sample_world ''a'' \<and>
   deleteFileOrDirectory 0 sample_env sample_world ''a'' [] = Some (Inr sample_world)"
proof -
  have d: "isDirectory sample_world ''a''" by code_simp
  have f: "\<not> isFile (fst (open_log sample_env sample_world [] ''source'')) ''a''"
    unfolding open_log_none fst_conv by code_simp
  from deleteFileOrDirectory_not_a_file [of "''a''" sample_env sample_world "[]" 0] f d
  show ?thesis by simp
qed

text \<open>With a log path the file system does change: the log and its directory appear.\<close>

theorem deleteFileOrDirectory_unchanged_counterexample:
  "isDirectory sample_world ''a'' \<and>
   deleteFileOrDirectory 0 sample_env sample_world ''a'' ''logs/del.txt''
     = Some (Inr (sample_world\<lparr>fs := Dir True
         [(''a'', Dir True
                  [(''b.txt'', File ''abcd''),
                   (''c'', Dir True [(''k'', Dir True [(''d.txt'', File ''0123456789'')])])]),
          (''e.bin'', File []), (''logs'', Dir True [(''del.txt'', File [])])]\<rparr>)) \<and>
   deleteFileOrDirectory 0 sample_env sample_world ''a'' ''logs/del.txt'' \<noteq> Some (Inr sample_world)"
  by code_simp

section \<open>The transfer loop\<close>

lemma ll_id: "- (2 ^ 63) \<le> x \<Longrightarrow> x < 2 ^ 63 \<Longrightarrow> ll x = x"
  by (simp add: ll_def signed_take_bit_int_eq_self)





lemma copy_loop_induct [consumes 1, case_names finished aborted write_failed continued]:
  assumes run: "copy_loop X w toFile data acc ts = res"
    and finished: "\<And>X w t data acc ts w1 failed.
        read_chunk w data = (w1, [], failed) \<Longrightarrow>
        P X w t data acc ts
          (if NO_FSTREAM_DIRECTIVE X \<and> (failed \<or> COPY_BUFFER_SIZE w = 0)
           then logMessage w1 ''Error reading from source file.'' else w1, acc, Completed)"
    and aborted: "\<And>X w t data acc ts w1 chunk failed w2.
        read_chunk w data = (w1, chunk, failed) \<Longrightarrow> chunk \<noteq> [] \<Longrightarrow>
        load_abortFileOp w1 = (True, w2) \<Longrightarrow>
        P X w t data acc ts (discard_destination w2 t, acc, Aborted)"
    and write_failed: "\<And>X w t data acc ts w1 chunk failed w2 w3.
        read_chunk w data = (w1, chunk, failed) \<Longrightarrow> chunk \<noteq> [] \<Longrightarrow>
        load_abortFileOp w1 = (False, w2) \<Longrightarrow> write_chunk X w2 t chunk = (w3, False) \<Longrightarrow>
        P X w t data acc ts (discard_destination w3 t, acc, WriteFailed)"
    and continued: "\<And>X w t data acc ts w1 chunk failed w2 w3 w4 acc' res.
        read_chunk w data = (w1, chunk, failed) \<Longrightarrow> chunk \<noteq> [] \<Longrightarrow>
        load_abortFileOp w1 = (False, w2) \<Longrightarrow> write_chunk X w2 t chunk = (w3, True) \<Longrightarrow>
        account_chunk w3 acc (length chunk) ts = (w4, acc') \<Longrightarrow>
        copy_loop X w4 t (drop (length chunk) data) acc' ts = res \<Longrightarrow>
        P X w4 t (drop (length chunk) data) acc' ts res \<Longrightarrow>
        P X w t data acc ts res"
  shows "P X w toFile data acc ts res"
  using run
proof (induction X w toFile data acc ts arbitrary: res rule: copy_loop.induct)
  case (1 X w toFile data acc ts)
  obtain w1 chunk failed where rd: "read_chunk w data = (w1, chunk, failed)"
    by (cases "read_chunk w data") auto
  show ?case
  proof (cases "chunk = []")
    case True
    with rd "1.prems" have "res = (if NO_FSTREAM_DIRECTIVE X \<and> (failed \<or> COPY_BUFFER_SIZE w = 0)
           then logMessage w1 ''Error reading from source file.'' else w1, acc, Completed)"
      by (simp add: copy_loop.simps [of X w toFile data acc ts])
    with finished [of w data w1 failed X toFile acc ts] rd True show ?thesis by simp
  next
    case False
    obtain abort w2 where ld: "load_abortFileOp w1 = (abort, w2)"
      by (cases "load_abortFileOp w1") auto
    show ?thesis
    proof (cases abort)
      case True
      with rd False ld "1.prems" have "res = (discard_destination w2 toFile, acc, Aborted)"
        by (simp add: copy_loop.simps [of X w toFile data acc ts])
      with aborted [of w data w1 chunk failed w2 X toFile acc ts] rd False ld True show ?thesis by simp
    next
      case nab: False
      obtain w3 ok where wr: "write_chunk X w2 toFile chunk = (w3, ok)"
        by (cases "write_chunk X w2 toFile chunk") auto
      show ?thesis
      proof (cases ok)
        case False
        with rd \<open>chunk \<noteq> []\<close> ld nab wr "1.prems" have "res = (discard_destination w3 toFile, acc, WriteFailed)"
          by (simp add: copy_loop.simps [of X w toFile data acc ts])
        with write_failed [of w data w1 chunk failed w2 X toFile w3 acc ts] rd \<open>chunk \<noteq> []\<close> ld nab wr False
        show ?thesis by simp
      next
        case True
        obtain w4 acc' where ac: "account_chunk w3 acc (length chunk) ts = (w4, acc')"
          by (cases "account_chunk w3 acc (length chunk) ts") auto
        have step: "copy_loop X w4 toFile (drop (length chunk) data) acc' ts = res"
          using rd \<open>chunk \<noteq> []\<close> ld nab wr True ac "1.prems"
          by (simp add: copy_loop.simps [of X w toFile data acc ts])
        have ih: "P X w4 toFile (drop (length chunk) data) acc' ts res"
          using "1.IH" [OF rd [symmetric] refl \<open>chunk \<noteq> []\<close> ld [symmetric] _ wr [symmetric] _ ac [symmetric] step]
            nab True by simp
        from continued [of w data w1 chunk failed w2 X toFile w3 acc ts w4 acc' res]
          rd \<open>chunk \<noteq> []\<close> ld nab wr True ac step ih
        show ?thesis by simp
      qed
    qed
  qed
qed


lemma read_chunk_facts:
  "read_chunk w data = (w1, chunk, failed) \<Longrightarrow>
   fs w1 = fs w \<and> copyPercentage w1 = copyPercentage w \<and> published w1 = published w \<and>
   COPY_BUFFER_SIZE w1 = COPY_BUFFER_SIZE w \<and> diag w1 = diag w \<and>
   abort_reads w1 = abort_reads w \<and> open_faults w1 = open_faults w \<and>
   write_caps w1 = write_caps w \<and>
   (chunk = [] \<or> chunk = take (COPY_BUFFER_SIZE w) data)"
  by (auto simp: read_chunk_def split: list.splits if_splits)

lemma load_abortFileOp_facts:
  "load_abortFileOp w = (b, w1) \<Longrightarrow>
   fs w1 = fs w \<and> copyPercentage w1 = copyPercentage w \<and> published w1 = published w \<and>
   COPY_BUFFER_SIZE w1 = COPY_BUFFER_SIZE w \<and> diag w1 = diag w \<and>
   read_faults w1 = read_faults w \<and> open_faults w1 = open_faults w \<and>
   write_caps w1 = write_caps w \<and> set (abort_reads w1) \<subseteq> set (abort_reads w) \<and>
   (b \<longrightarrow> True \<in> set (abort_reads w))"
  by (auto simp: load_abortFileOp_def split: list.splits)

lemma write_some_published:
  "write_some w t bytes = (w1, n) \<Longrightarrow>
   published w1 = published w \<and> copyPercentage w1 = copyPercentage w \<and>
   COPY_BUFFER_SIZE w1 = COPY_BUFFER_SIZE w \<and> abort_reads w1 = abort_reads w \<and>
   read_faults w1 = read_faults w \<and> open_faults w1 = open_faults w \<and> diag w1 = diag w"
  by (auto simp: write_some_def Let_def split: list.splits prod.splits)

lemma fwrite_all_published:
  "fwrite_all w t chunk k = (w1, ok) \<Longrightarrow>
   published w1 = published w \<and> copyPercentage w1 = copyPercentage w \<and>
   COPY_BUFFER_SIZE w1 = COPY_BUFFER_SIZE w \<and> abort_reads w1 = abort_reads w \<and>
   read_faults w1 = read_faults w \<and> open_faults w1 = open_faults w"
proof (induction w t chunk k arbitrary: w1 ok rule: fwrite_all.induct)
  case (1 w t chunk k)
  show ?case
  proof (cases "k < length chunk")
    case False
    with "1.prems" show ?thesis by (simp add: fwrite_all.simps [of w t chunk k])
  next
    case True
    obtain w2 n where ws: "write_some w t (drop k chunk) = (w2, n)"
      by (cases "write_some w t (drop k chunk)") auto
    show ?thesis
    proof (cases "n = 0")
      case z: True
      with True ws "1.prems" have "w1 = logMessage w2 ''Error writing to destination file.''"
        by (simp add: fwrite_all.simps [of w t chunk k])
      with write_some_published [OF ws] show ?thesis by (simp add: logMessage_def)
    next
      case nz: False
      with True ws "1.prems" have "fwrite_all w2 t chunk (k + n) = (w1, ok)"
        by (simp add: fwrite_all.simps [of w t chunk k])
      from "1.IH" [OF True ws [symmetric] nz this] write_some_published [OF ws]
      show ?thesis by simp
    qed
  qed
qed

lemma write_chunk_published:
  "write_chunk X w t chunk = (w1, ok) \<Longrightarrow>
   published w1 = published w \<and> copyPercentage w1 = copyPercentage w \<and>
   COPY_BUFFER_SIZE w1 = COPY_BUFFER_SIZE w \<and> abort_reads w1 = abort_reads w \<and>
   read_faults w1 = read_faults w \<and> open_faults w1 = open_faults w"
proof (cases "NO_FSTREAM_DIRECTIVE X")
  case True
  assume "write_chunk X w t chunk = (w1, ok)"
  with True show ?thesis using fwrite_all_published [of w t chunk 0 w1 ok] by (simp add: write_chunk_def)
next
  case False
  assume a: "write_chunk X w t chunk = (w1, ok)"
  obtain w2 n where ws: "write_some w t chunk = (w2, n)" by (cases "write_some w t chunk") auto
  from a False ws have "w1 = w2 \<or> w1 = logMessage w2 ''Error writing to destination file.''"
    by (auto simp: write_chunk_def stream_write_def split: if_splits)
  with write_some_published [OF ws] show ?thesis by (auto simp: logMessage_def)
qed



lemma running_percent_nonempty [simp]: "(running_percent a ts ns = []) = (ns = [])"
  by (cases ns) auto


lemma names_file_grows: "grows root root' \<Longrightarrow> names_file root p \<Longrightarrow> names_file root' p"
proof -
  assume g: "grows root root'" and n: "names_file root p"
  from n obtain cs b where cs: "resolve p = Some cs" "cs \<noteq> []" "lookup root cs = Some (File b)"
    by (auto simp: names_file_def split: option.splits node.splits)
  from g cs(3) obtain m' where "lookup root' cs = Some m'" "node_mode m' = S_IFREG"
    unfolding grows_def by fastforce
  then obtain b' where "lookup root' cs = Some (File b')" by (cases m') auto
  with cs show ?thesis by (simp add: names_file_def)
qed

lemma createSingleDirectory_grows: "grows (fs w) (fs (createSingleDirectory w p))"
  by (auto simp: createSingleDirectory_def logMessage_def grows_mkdir split: sum.splits)

lemma createDirectory_loop_grows:
  "grows (fs w) (fs (fst (createDirectory_loop w path parentPath pos)))"
proof (induction w path parentPath pos rule: createDirectory_loop.induct)
  case (1 w path parentPath pos)
  show ?case
  proof (cases "str_find path CHR ''/'' pos")
    case None
    then show ?thesis
      by (simp add: createDirectory_loop.simps [of w path parentPath pos])
  next
    case (Some nextPos)
    show ?thesis
    proof (cases "nextPos \<noteq> pos")
      case True
      let ?pp = "parentPath @ substr path pos (nextPos - pos) @ ''/''"
      let ?w1 = "createSingleDirectory w ?pp"
      have step: "createDirectory_loop w path parentPath pos = createDirectory_loop ?w1 path ?pp (nextPos + 1)"
        using Some True by (simp add: createDirectory_loop.simps [of w path parentPath pos] Let_def)
      have ih: "grows (fs ?w1) (fs (fst (createDirectory_loop ?w1 path ?pp (nextPos + 1))))"
        using "1.IH"(1) [OF Some True refl] .
      with createSingleDirectory_grows [of w ?pp] show ?thesis
        unfolding step by (rule grows_trans)
    next
      case False
      have step: "createDirectory_loop w path parentPath pos = createDirectory_loop w path parentPath (nextPos + 1)"
        using Some False by (simp add: createDirectory_loop.simps [of w path parentPath pos])
      show ?thesis unfolding step using "1.IH"(2) [OF Some False] .
    qed
  qed
qed

lemma createDirectory_grows: "grows (fs w) (fs (createDirectory w p))"
proof -
  define path where "path = (if compare_prefix p ROOT_PATH then drop (length ROOT_PATH) p else p)"
  obtain w1 pp pos where l: "createDirectory_loop w path ROOT_PATH 0 = (w1, pp, pos)"
    by (cases "createDirectory_loop w path ROOT_PATH 0") auto
  have a: "grows (fs w) (fs w1)"
    using createDirectory_loop_grows [of w path ROOT_PATH 0] l by simp
  have c: "createDirectory w p = (if pos < length path then createSingleDirectory w1 (pp @ drop pos path) else w1)"
    using l by (simp add: createDirectory_def Let_def path_def)
  show ?thesis
    unfolding c using a createSingleDirectory_grows [of w1 "pp @ drop pos path"]
    by (auto intro: grows_trans)
qed

lemma open_log_grows: "grows (fs w) (fs (fst (open_log X w logPath what)))"
proof (cases "logPath = []")
  case True
  then show ?thesis by simp
next
  case False
  let ?w1 = "createDirectory w (getParentDirFromPath X logPath)"
  show ?thesis
  proof (cases "open_write False (fs ?w1) logPath")
    case None
    with False show ?thesis by (simp add: open_log_def Let_def logMessage_def createDirectory_grows)
  next
    case (Some f)
    then have "grows (fs ?w1) f" by (rule grows_open_write)
    with createDirectory_grows [of w "getParentDirFromPath X logPath"] have "grows (fs w) f"
      by (rule grows_trans)
    with False Some show ?thesis by (simp add: open_log_def Let_def)
  qed
qed



lemma write_some_grows: "write_some w t bytes = (w1, n) \<Longrightarrow> grows (fs w) (fs w1)"
  by (auto simp: write_some_def Let_def grows_append_bytes split: list.splits prod.splits)

lemma fwrite_all_grows: "fwrite_all w t chunk k = (w1, ok) \<Longrightarrow> grows (fs w) (fs w1)"
proof (induction w t chunk k arbitrary: w1 ok rule: fwrite_all.induct)
  case (1 w t chunk k)
  show ?case
  proof (cases "k < length chunk")
    case False
    with "1.prems" show ?thesis by (simp add: fwrite_all.simps [of w t chunk k])
  next
    case True
    obtain w2 n where ws: "write_some w t (drop k chunk) = (w2, n)"
      by (cases "write_some w t (drop k chunk)") auto
    show ?thesis
    proof (cases "n = 0")
      case z: True
      with True ws "1.prems" have "w1 = logMessage w2 ''Error writing to destination file.''"
        by (simp add: fwrite_all.simps [of w t chunk k])
      with write_some_grows [OF ws] show ?thesis by (simp add: logMessage_def)
    next
      case nz: False
      with True ws "1.prems" have "fwrite_all w2 t chunk (k + n) = (w1, ok)"
        by (simp add: fwrite_all.simps [of w t chunk k])
      from "1.IH" [OF True ws [symmetric] nz this] write_some_grows [OF ws]
      show ?thesis by (auto intro: grows_trans)
    qed
  qed
qed

lemma write_chunk_grows: "write_chunk X w t chunk = (w1, ok) \<Longrightarrow> grows (fs w) (fs w1)"
proof (cases "NO_FSTREAM_DIRECTIVE X")
  case True
  assume "write_chunk X w t chunk = (w1, ok)"
  with True show ?thesis using fwrite_all_grows [of w t chunk 0 w1 ok] by (simp add: write_chunk_def)
next
  case False
  assume a: "write_chunk X w t chunk = (w1, ok)"
  obtain w2 n where ws: "write_some w t chunk = (w2, n)" by (cases "write_some w t chunk") auto
  from a False ws have "w1 = w2 \<or> w1 = logMessage w2 ''Error writing to destination file.''"
    by (auto simp: write_chunk_def stream_write_def split: if_splits)
  with write_some_grows [OF ws] show ?thesis by (auto simp: logMessage_def)
qed

lemma account_chunk_fs: "account_chunk w a n ts = (w1, a') \<Longrightarrow> fs w1 = fs w"
  by (auto simp: account_chunk_def Let_def store_copyPercentage_def split: if_splits)

lemma discard_destination_result:
  assumes "names_file (fs w) t"
  shows "stat (fs (discard_destination w t)) t = None \<and>
         copyPercentage (discard_destination w t) = - 1 \<and>
         published (discard_destination w t) = published w @ [- 1]"
proof -
  from assms obtain cs b where cs: "resolve t = Some cs" "cs \<noteq> []" "lookup (fs w) cs = Some (File b)"
    by (auto simp: names_file_def split: option.splits node.splits)
  then have r: "remove_file (fs w) t = Inr (unlink_at cs (fs w))"
    by (simp add: remove_file_def)
  have "stat (unlink_at cs (fs w)) t = None"
    using cs by (simp add: stat_def lookup_unlink_at)
  with r show ?thesis by (simp add: discard_destination_def store_copyPercentage_def)
qed

lemma copy_loop_aborted:
  "copy_loop X w t data acc ts = res \<Longrightarrow> names_file (fs w) t \<Longrightarrow> snd (snd res) = Aborted \<Longrightarrow>
   stat (fs (fst res)) t = None \<and> copyPercentage (fst res) = - 1 \<and>
   published (fst res) \<noteq> [] \<and> last (published (fst res)) = - 1"
proof (induction rule: copy_loop_induct)
  case (finished X w t data acc ts w1 failed)
  then show ?case by simp
next
  case (aborted X w t data acc ts w1 chunk failed w2)
  have "fs w2 = fs w"
    using read_chunk_facts [OF aborted(1)] load_abortFileOp_facts [OF aborted(3)] by simp
  with aborted.prems have "names_file (fs w2) t" by simp
  from discard_destination_result [OF this] show ?case by simp
next
  case (write_failed X w t data acc ts w1 chunk failed w2 w3)
  then show ?case by simp
next
  case (continued X w t data acc ts w1 chunk failed w2 w3 w4 acc' res)
  have "fs w2 = fs w"
    using read_chunk_facts [OF continued(1)] load_abortFileOp_facts [OF continued(3)] by simp
  moreover have "grows (fs w2) (fs w3)" using continued(4) by (rule write_chunk_grows)
  moreover have "fs w4 = fs w3" using continued(5) by (rule account_chunk_fs)
  ultimately have "names_file (fs w4) t"
    using continued.prems(1) by (auto intro: names_file_grows)
  with continued.IH continued.prems(2) show ?case by simp
qed

lemma open_both_names_file:
  "open_both w fromFile toFile = (w1, Some d) \<Longrightarrow> names_file (fs w1) toFile"
proof -
  assume a: "open_both w fromFile toFile = (w1, Some d)"
  let ?p = "(case open_faults w of [] \<Rightarrow> ((False, False), w) | f # fs' \<Rightarrow> (f, w\<lparr>open_faults := fs'\<rparr>))"
  obtain fl w0 where p: "?p = (fl, w0)" by (cases ?p) auto
  define dst where "dst = (if snd fl then None else open_write True (fs w0) toFile)"
  from a p have "dst \<noteq> None \<and> w1 = (case dst of None \<Rightarrow> w0 | Some f \<Rightarrow> w0\<lparr>fs := f\<rparr>)"
    by (auto simp: open_both_def Let_def dst_def split: if_splits)
  then obtain f where f: "dst = Some f" "fs w1 = f" by auto
  then have "open_write True (fs w0) toFile = Some f"
    by (auto simp: dst_def split: if_splits)
  then show ?thesis using open_write_is_file [of True "fs w0" toFile f] f
    by (auto simp: names_file_def)
qed

lemma open_retry_names_file:
  "open_retry w fromFile toFile retryCount = res \<Longrightarrow> fst (snd res) \<noteq> None \<Longrightarrow>
   names_file (fs (fst res)) toFile"
proof (induction rule: open_retry_induct)
  case (opened w f t k w1 d)
  then show ?case using open_both_names_file by simp
next
  case (gave_up w f t k w1)
  then show ?case by simp
next
  case (retried w f t k w1 w3 r n)
  then show ?case by simp
qed

section \<open>Cancellation of a single-file copy\<close>

text \<open>
  C2.  A call of \<^verbatim>\<open>copySingleFile\<close> that finds \<^verbatim>\<open>abortFileOp\<close> set at the checkpoint
  of a chunk (it ends as \<open>Aborted\<close>) returns a state in which the destination path
  names nothing and \<open>copyPercentage\<close> is \<open>-1\<close>, the last value published.  The
  function has no error result: the caller gets the state back and nothing else.
\<close>

theorem copySingleFile_cancelled:
  assumes "copySingleFile X w fromFile toFile totalBytesCopied totalSize logSource logDestination
             = (w', totalBytesCopied', Aborted)"
  shows "\<not> isFileOrDirectory w' toFile \<and> copyPercentage w' = - 1 \<and>
         published w' \<noteq> [] \<and> last (published w') = - 1"
proof -
  let ?w1 = "createDirectory w (getParentDirFromPath X toFile)"
  obtain w2 r tries where op: "open_retry ?w1 fromFile toFile 0 = (w2, r, tries)"
    by (cases "open_retry ?w1 fromFile toFile 0") auto
  from assms op obtain data where r: "r = Some data"
    by (cases r) (auto simp: copySingleFile_def)
  obtain w3 ls where l1: "open_log X w2 logSource ''source'' = (w3, ls)"
    by (cases "open_log X w2 logSource ''source''") auto
  obtain w4 ld where l2: "open_log X w3 logDestination ''destination'' = (w4, ld)"
    by (cases "open_log X w3 logDestination ''destination''") auto
  obtain w5 acc5 out where cl: "copy_loop X w4 toFile data totalBytesCopied totalSize = (w5, acc5, out)"
    by (cases "copy_loop X w4 toFile data totalBytesCopied totalSize") auto
  from assms op r l1 l2 cl have out: "out = Aborted" "w' = w5"
    by (cases out; simp add: copySingleFile_def)+
  have "names_file (fs w2) toFile" using open_retry_names_file [OF op] r by simp
  then have "names_file (fs w3) toFile"
    using open_log_grows [of w2 X logSource "''source''"] l1 by (auto intro: names_file_grows)
  then have "names_file (fs w4) toFile"
    using open_log_grows [of w3 X logDestination "''destination''"] l2 by (auto intro: names_file_grows)
  from copy_loop_aborted [OF cl this] out show ?thesis
    by (simp add: isFileOrDirectory_def)
qed

lemma sample_cancelled_run:
  "copySingleFile sample_env (sample_world\<lparr>abort_reads := [False, True]\<rparr>)
     ''a/c/k/d.txt'' ''out/x.bin'' 0 10 [] []
   = (sample_world\<lparr>fs := Dir True
         [(''a'', Dir True
                  [(''b.txt'', File ''abcd''),
                   (''c'', Dir True [(''k'', Dir True [(''d.txt'', File ''0123456789'')])])]),
          (''e.bin'', File []), (''out'', Dir True [])],
        copyPercentage := - 1, published := [40, - 1]\<rparr>, 4, Aborted)"
  by code_simp

theorem copySingleFile_cancelled_witness:
  "COPY_BUFFER_SIZE sample_world < length ''0123456789'' \<and>
   snd (snd (copySingleFile sample_env (sample_world\<lparr>abort_reads := [False, True]\<rparr>)
               ''a/c/k/d.txt'' ''out/x.bin'' 0 10 [] [])) = Aborted \<and>
   \<not> isFileOrDirectory
        (fst (copySingleFile sample_env (sample_world\<lparr>abort_reads := [False, True]\<rparr>)
                ''a/c/k/d.txt'' ''out/x.bin'' 0 10 [] [])) ''out/x.bin'' \<and>
   copyPercentage
        (fst (copySingleFile sample_env (sample_world\<lparr>abort_reads := [False, True]\<rparr>)
                ''a/c/k/d.txt'' ''out/x.bin'' 0 10 [] [])) = - 1"
  using copySingleFile_cancelled [OF sample_cancelled_run] sample_cancelled_run
  by (simp add: sample_world_def)

section \<open>Progress accounting of a single-file copy\<close>





section \<open>Idempotence of directory creation\<close>

lemma lookup_create_at:
  assumes "cs \<noteq> []" "lookup root (butlast cs) = Some (Dir r es)" "lookup root cs = None"
  shows "lookup (create_at cs new root) cs = Some new"
proof -
  have split: "cs = butlast cs @ [last cs]" using assms(1) by simp
  from assms(2,3) have "map_of es (last cs) = None"
    using lookup_append [of root "butlast cs" "[last cs]"] split by (auto split: option.splits)
  then have "lookup (add_entry (last cs) new (Dir r es)) [last cs] = Some new"
    by (simp add: add_entry_def map_add_def)
  with assms(2) have "lookup (create_at cs new root) (butlast cs @ [last cs]) = Some new"
    unfolding create_at_def by (simp add: lookup_modify_below)
  with split show ?thesis by simp
qed

lemma stat_grows: "grows root root' \<Longrightarrow> stat root q \<noteq> None \<Longrightarrow> stat root' q \<noteq> None"
  unfolding grows_def stat_mode by (fastforce split: option.splits)

lemma mkdir_exists_after: "mkdir root q = Inr root' \<Longrightarrow> stat root' q \<noteq> None"
proof -
  assume a: "mkdir root q = Inr root'"
  then obtain cs r es where cs: "resolve q = Some cs" "cs \<noteq> []" "lookup root cs = None"
      "lookup root (butlast cs) = Some (Dir r es)" "root' = create_at cs (Dir True []) root"
    by (auto simp: mkdir_def split: option.splits if_splits node.splits)
  from lookup_create_at [OF cs(2,4,3)] cs(1,5) show ?thesis
    by (simp add: stat_mode)
qed

lemma mkdir_eexist_iff: "(mkdir root q = Inl EEXIST) = (stat root q \<noteq> None)"
  by (auto simp: mkdir_def stat_mode split: option.splits if_splits node.splits)

lemma createSingleDirectory_existing:
  "isFileOrDirectory w q \<Longrightarrow> createSingleDirectory w q = w"
  using mkdir_eexist_iff [of "fs w" q] by (simp add: isFileOrDirectory_def createSingleDirectory_def)

lemma createSingleDirectory_diag:
  "prefix (diag w) (diag (createSingleDirectory w q)) \<and>
   (diag (createSingleDirectory w q) = diag w \<longrightarrow> isFileOrDirectory (createSingleDirectory w q) q)"
proof (cases "mkdir (fs w) q")
  case (Inl e)
  then show ?thesis
    using mkdir_eexist_iff [of "fs w" q]
    by (auto simp: createSingleDirectory_def logMessage_def isFileOrDirectory_def)
next
  case (Inr f)
  then show ?thesis using mkdir_exists_after [OF Inr]
    by (simp add: createSingleDirectory_def isFileOrDirectory_def)
qed

lemma createDirectory_loop_diag:
  "prefix (diag w) (diag (fst (createDirectory_loop w path parentPath pos)))"
proof (induction w path parentPath pos rule: createDirectory_loop.induct)
  case (1 w path parentPath pos)
  show ?case
  proof (cases "str_find path CHR ''/'' pos")
    case None
    then show ?thesis
      by (simp add: createDirectory_loop.simps [of w path parentPath pos])
  next
    case (Some nextPos)
    show ?thesis
    proof (cases "nextPos \<noteq> pos")
      case True
      let ?pp = "parentPath @ substr path pos (nextPos - pos) @ ''/''"
      let ?w1 = "createSingleDirectory w ?pp"
      have step: "createDirectory_loop w path parentPath pos = createDirectory_loop ?w1 path ?pp (nextPos + 1)"
        using Some True by (simp add: createDirectory_loop.simps [of w path parentPath pos] Let_def)
      have ih: "prefix (diag ?w1) (diag (fst (createDirectory_loop ?w1 path ?pp (nextPos + 1))))"
        using "1.IH"(1) [OF Some True refl] .
      with createSingleDirectory_diag [of w ?pp] show ?thesis
        unfolding step by (auto intro: prefix_order.trans)
    next
      case False
      have step: "createDirectory_loop w path parentPath pos = createDirectory_loop w path parentPath (nextPos + 1)"
        using Some False by (simp add: createDirectory_loop.simps [of w path parentPath pos])
      show ?thesis unfolding step using "1.IH"(2) [OF Some False] .
    qed
  qed
qed

lemma prefix_squeeze: "prefix a b \<Longrightarrow> prefix b c \<Longrightarrow> c = a \<Longrightarrow> b = a"
  by (metis prefix_order.antisym)

lemma createDirectory_loop_again:
  "createDirectory_loop w path parentPath pos = (w1, pp1, pos1) \<Longrightarrow> diag w1 = diag w \<Longrightarrow>
   grows (fs w1) (fs u) \<Longrightarrow> createDirectory_loop u path parentPath pos = (u, pp1, pos1)"
proof (induction w path parentPath pos arbitrary: w1 pp1 pos1 rule: createDirectory_loop.induct)
  case (1 w path parentPath pos)
  show ?case
  proof (cases "str_find path CHR ''/'' pos")
    case None
    with "1.prems"(1) have "pp1 = parentPath" "pos1 = pos"
      by (simp_all add: createDirectory_loop.simps [of w path parentPath pos])
    moreover from None have "createDirectory_loop u path parentPath pos = (u, parentPath, pos)"
      by (simp add: createDirectory_loop.simps [of u path parentPath pos])
    ultimately show ?thesis by simp
  next
    case (Some nextPos)
    show ?thesis
    proof (cases "nextPos \<noteq> pos")
      case True
      let ?pp = "parentPath @ substr path pos (nextPos - pos) @ ''/''"
      let ?w1 = "createSingleDirectory w ?pp"
      have step: "createDirectory_loop w path parentPath pos = createDirectory_loop ?w1 path ?pp (nextPos + 1)"
        using Some True by (simp add: createDirectory_loop.simps [of w path parentPath pos] Let_def)
      with "1.prems"(1) have run: "createDirectory_loop ?w1 path ?pp (nextPos + 1) = (w1, pp1, pos1)" by simp
      have p1: "prefix (diag w) (diag ?w1)" using createSingleDirectory_diag [of w ?pp] by simp
      have p2: "prefix (diag ?w1) (diag w1)"
        using createDirectory_loop_diag [of ?w1 path ?pp "nextPos + 1"] run by simp
      have d: "diag ?w1 = diag w" using prefix_squeeze [OF p1 p2 "1.prems"(2)] .
      then have "isFileOrDirectory ?w1 ?pp" using createSingleDirectory_diag [of w ?pp] by simp
      moreover have "grows (fs ?w1) (fs w1)"
        using createDirectory_loop_grows [of ?w1 path ?pp "nextPos + 1"] run by simp
      ultimately have "isFileOrDirectory u ?pp"
        using "1.prems"(3) unfolding isFileOrDirectory_def
        by (metis stat_grows)
      then have same: "createSingleDirectory u ?pp = u" by (rule createSingleDirectory_existing)
      have "createDirectory_loop u path ?pp (nextPos + 1) = (u, pp1, pos1)"
        using "1.IH"(1) [OF Some True refl run _ "1.prems"(3)] d "1.prems"(2) by simp
      then show ?thesis
        using Some True same by (simp add: createDirectory_loop.simps [of u path parentPath pos] Let_def)
    next
      case False
      have step: "createDirectory_loop w path parentPath pos = createDirectory_loop w path parentPath (nextPos + 1)"
        using Some False by (simp add: createDirectory_loop.simps [of w path parentPath pos])
      with "1.prems"(1) have run: "createDirectory_loop w path parentPath (nextPos + 1) = (w1, pp1, pos1)" by simp
      have "createDirectory_loop u path parentPath (nextPos + 1) = (u, pp1, pos1)"
        using "1.IH"(2) [OF Some False run "1.prems"(2,3)] .
      then show ?thesis
        using Some False by (simp add: createDirectory_loop.simps [of u path parentPath pos])
    qed
  qed
qed

text \<open>
  C7.  A first call of \<^verbatim>\<open>createDirectory\<close> that logged no failure is followed by a
  second call that changes nothing at all: the state after the second call is the state
  after the first, so the same directories are present and no diagnostic is added.  The
  reason is the one the claim gives: on a path that already names something, a
  single-level creation leaves the state as it is.  The function has no error result.
\<close>

theorem createDirectory_idempotent:
  assumes "diag (createDirectory w p) = diag w"
  shows "createDirectory (createDirectory w p) p = createDirectory w p \<and>
         (\<forall>u q. isFileOrDirectory u q \<longrightarrow> createSingleDirectory u q = u)"
proof -
  define path where "path = (if compare_prefix p ROOT_PATH then drop (length ROOT_PATH) p else p)"
  obtain w1 pp pos where l: "createDirectory_loop w path ROOT_PATH 0 = (w1, pp, pos)"
    by (cases "createDirectory_loop w path ROOT_PATH 0") auto
  let ?W = "createDirectory w p"
  have c: "?W = (if pos < length path then createSingleDirectory w1 (pp @ drop pos path) else w1)"
    using l by (simp add: createDirectory_def Let_def path_def)
  have p1: "prefix (diag w) (diag w1)"
    using createDirectory_loop_diag [of w path ROOT_PATH 0] l by simp
  have p2: "prefix (diag w1) (diag ?W)"
    unfolding c using createSingleDirectory_diag [of w1 "pp @ drop pos path"] by simp
  have d1: "diag w1 = diag w" using prefix_squeeze [OF p1 p2 assms] .
  have g: "grows (fs w1) (fs ?W)"
    unfolding c using createSingleDirectory_grows [of w1 "pp @ drop pos path"] by simp
  have again: "createDirectory_loop ?W path ROOT_PATH 0 = (?W, pp, pos)"
    using createDirectory_loop_again [OF l d1 g] .
  have last: "pos < length path \<Longrightarrow> createSingleDirectory ?W (pp @ drop pos path) = ?W"
  proof -
    assume lt: "pos < length path"
    with c have W: "?W = createSingleDirectory w1 (pp @ drop pos path)" by simp
    with assms d1 have "diag (createSingleDirectory w1 (pp @ drop pos path)) = diag w1" by simp
    then have "isFileOrDirectory (createSingleDirectory w1 (pp @ drop pos path)) (pp @ drop pos path)"
      using createSingleDirectory_diag [of w1 "pp @ drop pos path"] by simp
    with W have "isFileOrDirectory ?W (pp @ drop pos path)" by simp
    then show ?thesis by (rule createSingleDirectory_existing)
  qed
  have "createDirectory ?W p = (if pos < length path then createSingleDirectory ?W (pp @ drop pos path) else ?W)"
    using again by (simp add: createDirectory_def [of ?W p] Let_def path_def)
  with last have "createDirectory ?W p = ?W" by (cases "pos < length path") simp_all
  then show ?thesis using createSingleDirectory_existing by blast
qed

lemma sample_created:
  "createDirectory sample_world ''sdmc:/x/y/z''
   = sample_world\<lparr>fs := Dir True
       [(''a'', Dir True
                [(''b.txt'', File ''abcd''),
                 (''c'', Dir True [(''k'', Dir True [(''d.txt'', File ''0123456789'')])])]),
        (''e.bin'', File []),
        (''x'', Dir True [(''y'', Dir True [(''z'', Dir True [])])])]\<rparr>"
  by code_simp

theorem createDirectory_idempotent_witness:
  "diag (createDirectory sample_world ''sdmc:/x/y/z'') = diag sample_world \<and>
   \<not> isDirectory sample_world ''sdmc:/x/y/z'' \<and>
   isDirectory (createDirectory sample_world ''sdmc:/x/y/z'') ''sdmc:/x/y/z'' \<and>
   createDirectory (createDirectory sample_world ''sdmc:/x/y/z'') ''sdmc:/x/y/z''
     = createDirectory sample_world ''sdmc:/x/y/z''"
proof -
  have d: "diag (createDirectory sample_world ''sdmc:/x/y/z'') = diag sample_world"
    by (simp add: sample_created)
  have n: "\<not> isDirectory sample_world ''sdmc:/x/y/z''" by code_simp
  have y: "isDirectory (createDirectory sample_world ''sdmc:/x/y/z'') ''sdmc:/x/y/z''" by code_simp
  from createDirectory_idempotent [OF d] d n y show ?thesis by simp
qed

section \<open>Percentage at the end of a batch copy\<close>





lemma write_chunk_abort_reads:
  "write_chunk X w t chunk = (w1, ok) \<Longrightarrow> abort_reads w1 = abort_reads w"
  using write_chunk_published by blast












section \<open>Size accountant\<close>

text \<open>The \<^verbatim>\<open>readdir\<close> loop over entries of a well-formed directory adds the sizes of the
  files among them and queues the directories among them.\<close>

lemma getTotalSize_entries_run:
  assumes cur: "lookup root (components cur) = Some (Dir r es)"
    and dist: "distinct (map fst es)"
  shows "set es' \<subseteq> set es \<Longrightarrow> \<forall>e \<in> set es'. valid_name (fst e) \<Longrightarrow> 0 \<le> tot \<Longrightarrow>
     tot + int (sum_list (map (\<lambda>e. case snd e of File b \<Rightarrow> length b | _ \<Rightarrow> 0) es')) < 2 ^ 63 \<Longrightarrow>
     getTotalSize_entries root cur (map fst es') tot dirs
       = (tot + int (sum_list (map (\<lambda>e. case snd e of File b \<Rightarrow> length b | _ \<Rightarrow> 0) es')),
          dirs @ map (\<lambda>e. cur @ ''/'' @ fst e) (filter (\<lambda>e. node_mode (snd e) = S_IFDIR) es'))"
proof (induction es' arbitrary: tot dirs)
  case Nil
  show ?case by simp
next
  case (Cons e es')
  obtain nm m where e: "e = (nm, m)" by (cases e) auto
  from Cons.prems(1) e have mem: "(nm, m) \<in> set es" by simp
  with dist have mo: "map_of es nm = Some m" by simp
  from Cons.prems(2) e have v: "valid_name nm" by simp
  then have nd: "nm \<noteq> ''.''" "nm \<noteq> ''..''" by (simp_all add: valid_name_def)
  have lk: "lookup root (components cur @ [nm]) = Some m"
    using lookup_child [OF cur, of nm] mo by simp
  have st: "lstat root (cur @ ''/'' @ nm) = Some \<lparr>st_mode = node_mode m, st_size = (case m of File b \<Rightarrow> length b | _ \<Rightarrow> 0)\<rparr>"
    using lk resolve_child [OF v, of cur] by (simp add: lstat_def stat_mode)
  let ?sz = "\<lambda>e. case snd e of File b \<Rightarrow> length b | _ \<Rightarrow> (0::nat)"
  have rest: "set es' \<subseteq> set es" "\<forall>e \<in> set es'. valid_name (fst e)" using Cons.prems(1,2) by auto
  show ?case
  proof (cases m)
    case (File b)
    have inr: "ll (tot + int (length b)) = tot + int (length b)"
      using Cons.prems(3,4) e File by (intro ll_id) auto
    have b4: "(tot + int (length b)) + int (sum_list (map ?sz es')) < 2 ^ 63"
      using Cons.prems(4) e File by simp
    have "0 \<le> tot + int (length b)" using Cons.prems(3) by simp
    from Cons.IH [OF rest this b4, of dirs] st nd e File inr show ?thesis
      by (simp add: S_ISREG_def S_ISDIR_def)
  next
    case (Dir r' es'')
    have b4: "tot + int (sum_list (map ?sz es')) < 2 ^ 63"
      using Cons.prems(4) e Dir by simp
    from Cons.IH [OF rest Cons.prems(3) b4, of "dirs @ [cur @ ''/'' @ nm]"] st nd e Dir show ?thesis
      by (simp add: S_ISREG_def S_ISDIR_def)
  next
    case Other
    have b4: "tot + int (sum_list (map ?sz es')) < 2 ^ 63"
      using Cons.prems(4) e Other by simp
    from Cons.IH [OF rest Cons.prems(3) b4, of dirs] st nd e Other show ?thesis
      by (simp add: S_ISREG_def S_ISDIR_def)
  qed
qed


lemma tree_bytes_split:
  "sum_list (map (\<lambda>e. tree_bytes (snd e)) es)
     = sum_list (map (\<lambda>e. case snd e of File b \<Rightarrow> length b | _ \<Rightarrow> 0) es)
       + sum_list (map tree_bytes (map snd (filter (\<lambda>e. node_mode (snd e) = S_IFDIR) es)))"
proof (induction es)
  case Nil
  show ?case by simp
next
  case (Cons e es)
  then show ?case by (cases "snd e") simp_all
qed

lemma walk_steps_split:
  "sum_list (map (\<lambda>e. walk_steps (snd e)) es)
     = sum_list (map walk_steps (map snd (filter (\<lambda>e. node_mode (snd e) = S_IFDIR) es)))"
proof (induction es)
  case Nil
  show ?case by simp
next
  case (Cons e es)
  then show ?case by (cases "snd e") simp_all
qed

lemma getTotalSize_entries_dots:
  "getTotalSize_entries root cur (''.'' # ''..'' # names) tot dirs
     = getTotalSize_entries root cur names tot dirs"
  by simp

lemma getTotalSize_loop_run:
  "list_all2 (\<lambda>q n. q \<noteq> [] \<and> lookup root (components q) = Some n \<and>
                     node_mode n = S_IFDIR \<and> wf_node n) queue nodes \<Longrightarrow>
   0 \<le> tot \<Longrightarrow> tot + int (sum_list (map tree_bytes nodes)) < 2 ^ 63 \<Longrightarrow>
   sum_list (map walk_steps nodes) \<le> fuel \<Longrightarrow>
   getTotalSize_loop fuel root queue tot = Some (tot + int (sum_list (map tree_bytes nodes)))"
proof (induction fuel arbitrary: queue nodes tot)
  case 0
  have "nodes = []"
  proof (cases nodes)
    case (Cons n ns)
    with "0.prems"(1) have "node_mode n = S_IFDIR" by (auto simp: list_all2_Cons2)
    then have "1 \<le> walk_steps n" by (cases n) auto
    with Cons "0.prems"(4) show ?thesis by simp
  qed simp
  with "0.prems"(1) show ?case by simp
next
  case (Suc fuel)
  show ?case
  proof (cases queue)
    case Nil
    with Suc.prems(1) show ?thesis by simp
  next
    case (Cons cur rest)
    with Suc.prems(1) obtain n ns where nodes: "nodes = n # ns"
      and cur: "cur \<noteq> []" "lookup root (components cur) = Some n" "node_mode n = S_IFDIR" "wf_node n"
      and rest: "list_all2 (\<lambda>q n. q \<noteq> [] \<and> lookup root (components q) = Some n \<and>
                     node_mode n = S_IFDIR \<and> wf_node n) rest ns"
      by (auto simp: list_all2_Cons1)
    from cur(3) obtain r es where n: "n = Dir r es" by (cases n) auto
    show ?thesis
    proof (cases r)
      case False
      with cur n have rd: "readdir_all root cur = None" by (simp add: readdir_all_def resolve_def)
      have "getTotalSize_loop fuel root rest tot = Some (tot + int (sum_list (map tree_bytes ns)))"
        using Suc.IH [OF rest Suc.prems(2)] Suc.prems(3,4) nodes n False by simp
      with rd Cons nodes n False show ?thesis by simp
    next
      case True
      with cur n have rd: "readdir_all root cur = Some (''.'' # ''..'' # map fst es)"
        by (simp add: readdir_all_def resolve_def)
      let ?sz = "\<lambda>e. case snd e of File b \<Rightarrow> length b | _ \<Rightarrow> (0::nat)"
      let ?subs = "filter (\<lambda>e. node_mode (snd e) = S_IFDIR) es"
      have tb: "tree_bytes n = sum_list (map ?sz es) + sum_list (map tree_bytes (map snd ?subs))"
        using n True tree_bytes_split [of es] by simp
      have ws: "walk_steps n = 1 + sum_list (map walk_steps (map snd ?subs))"
        using n True walk_steps_split [of es] by simp
      from cur(4) n have wf: "distinct (map fst es)" "\<forall>e \<in> set es. valid_name (fst e) \<and> wf_node (snd e)"
        by auto
      have lk: "lookup root (components cur) = Some (Dir r es)" using cur(2) n by simp
      have b: "tot + int (sum_list (map ?sz es)) < 2 ^ 63"
        using Suc.prems(3) nodes tb by simp
      have ent: "getTotalSize_entries root cur (map fst es) tot rest
          = (tot + int (sum_list (map ?sz es)), rest @ map (\<lambda>e. cur @ ''/'' @ fst e) ?subs)"
        using getTotalSize_entries_run [OF lk wf(1), of es tot rest] wf(2) Suc.prems(2) b by simp
      have kids: "list_all2 (\<lambda>q n. q \<noteq> [] \<and> lookup root (components q) = Some n \<and>
                     node_mode n = S_IFDIR \<and> wf_node n)
            (map (\<lambda>e. cur @ ''/'' @ fst e) ?subs) (map snd ?subs)"
      proof (rule list_all2_all_nthI)
        show "length (map (\<lambda>e. cur @ ''/'' @ fst e) ?subs) = length (map snd ?subs)" by simp
      next
        fix i assume "i < length (map (\<lambda>e. cur @ ''/'' @ fst e) ?subs)"
        then have i: "i < length ?subs" by simp
        then have mem: "?subs ! i \<in> set ?subs" by (rule nth_mem)
        then have e: "?subs ! i \<in> set es" "node_mode (snd (?subs ! i)) = S_IFDIR" by auto
        obtain nm m where p: "?subs ! i = (nm, m)" by (cases "?subs ! i") auto
        with e wf have v: "valid_name nm" "wf_node m" "map_of es nm = Some m" by auto
        have "lookup root (components (cur @ CHR ''/'' # nm)) = Some m"
          using lookup_child [OF lk, of nm] v by (simp add: components_child)
        with i p e v show "map (\<lambda>e. cur @ ''/'' @ fst e) ?subs ! i \<noteq> [] \<and>
            lookup root (components (map (\<lambda>e. cur @ ''/'' @ fst e) ?subs ! i)) = Some (map snd ?subs ! i) \<and>
            node_mode (map snd ?subs ! i) = S_IFDIR \<and> wf_node (map snd ?subs ! i)"
          by simp
      qed
      have q': "list_all2 (\<lambda>q n. q \<noteq> [] \<and> lookup root (components q) = Some n \<and>
                     node_mode n = S_IFDIR \<and> wf_node n)
            (rest @ map (\<lambda>e. cur @ ''/'' @ fst e) ?subs) (ns @ map snd ?subs)"
        using rest kids by (rule list_all2_appendI)
      have t0: "0 \<le> tot + int (sum_list (map ?sz es))" using Suc.prems(2) by simp
      have t1: "(tot + int (sum_list (map ?sz es))) + int (sum_list (map tree_bytes (ns @ map snd ?subs))) < 2 ^ 63"
        using Suc.prems(3) nodes tb by simp
      have t2: "sum_list (map walk_steps (ns @ map snd ?subs)) \<le> fuel"
        using Suc.prems(4) nodes ws by simp
      have "getTotalSize_loop fuel root (rest @ map (\<lambda>e. cur @ ''/'' @ fst e) ?subs) (tot + int (sum_list (map ?sz es)))
          = Some (tot + int (sum_list (map tree_bytes nodes)))"
        using Suc.IH [OF q' t0 t1 t2] nodes tb by simp
      with rd ent Cons show ?thesis by simp
    qed
  qed
qed

text \<open>
  C6.  On a well-formed tree whose total stays below \<open>2^63\<close>, \<^verbatim>\<open>getTotalSize\<close> returns,
  for every path and every step budget from some bound on, what the spec says
  (\<open>spec_totalSize\<close>): the byte length of a regular file, for a directory the sum of
  the sizes of the regular files reachable through readable directories (an unreadable
  directory contributes zero), and zero for anything else and for a path that names
  nothing.
\<close>

theorem getTotalSize_matches_spec:
  assumes "wf_node root" and "spec_totalSize root path < 2 ^ 63"
  shows "\<exists>n0. \<forall>fuel \<ge> n0. getTotalSize fuel root path = Some (spec_totalSize root path)"
proof (cases "path = []")
  case True
  then show ?thesis by (simp add: getTotalSize_def lstat_def stat_def resolve_def spec_totalSize_def)
next
  case False
  then have res: "resolve path = Some (components path)" by (simp add: resolve_def)
  show ?thesis
  proof (cases "lookup root (components path)")
    case None
    with res show ?thesis by (simp add: getTotalSize_def lstat_def stat_def spec_totalSize_def)
  next
    case (Some n)
    show ?thesis
    proof (cases n)
      case (File b)
      with res Some show ?thesis
        by (simp add: getTotalSize_def lstat_def stat_def spec_totalSize_def S_ISREG_def)
    next
      case Other
      with res Some show ?thesis
        by (simp add: getTotalSize_def lstat_def stat_def spec_totalSize_def S_ISREG_def S_ISDIR_def)
    next
      case (Dir r es)
      have wf: "wf_node n" using wf_lookup [OF assms(1) Some] .
      have q: "list_all2 (\<lambda>q n. q \<noteq> [] \<and> lookup root (components q) = Some n \<and>
                     node_mode n = S_IFDIR \<and> wf_node n) [path] [n]"
        using False Some Dir wf by simp
      have b: "0 + int (sum_list (map tree_bytes [n])) < 2 ^ 63"
        using assms(2) res Some by (simp add: spec_totalSize_def)
      have "\<forall>fuel \<ge> walk_steps n. getTotalSize fuel root path = Some (spec_totalSize root path)"
      proof (intro allI impI)
        fix fuel assume "walk_steps n \<le> fuel"
        then have "sum_list (map walk_steps [n]) \<le> fuel" by simp
        from getTotalSize_loop_run [OF q _ b this] res Some Dir show
          "getTotalSize fuel root path = Some (spec_totalSize root path)"
          by (simp add: getTotalSize_def lstat_def stat_def spec_totalSize_def S_ISREG_def S_ISDIR_def)
      qed
      then show ?thesis by blast
    qed
  qed
qed

lemma sample_fs_wf: "wf_node sample_fs"
  by (simp add: sample_fs_def valid_name_def)

lemma sample_fs_total: "spec_totalSize sample_fs ''a'' = 14"
  by code_simp

theorem getTotalSize_matches_spec_witness:
  "wf_node sample_fs \<and> spec_totalSize sample_fs ''a'' = 14 \<and>
   (\<exists>n0. \<forall>fuel \<ge> n0. getTotalSize fuel sample_fs ''a'' = Some 14)"
proof -
  have b: "spec_totalSize sample_fs ''a'' < 2 ^ 63" by (simp add: sample_fs_total)
  from getTotalSize_matches_spec [OF sample_fs_wf b] sample_fs_wf sample_fs_total
  show ?thesis by simp
qed

section \<open>Iterative delete engine\<close>

















lemma node_mode_shape [simp]: "node_mode (shape n) = node_mode n"
  by (cases n) simp_all





















end
